theory Spec2Isabelle
  imports Main "HOL-Library.Multiset" "HOL-Library.Char_ord" "HOL-Library.List_Lexorder"
begin

section \<open>The persistence layer of the study assistant (class DatabaseManager of pro.py)\<close>

text \<open>
  The class \<^verbatim>\<open>DatabaseManager\<close> talks to SQLite through Python's \<^verbatim>\<open>sqlite3\<close> module.
  The module is not part of the repository, so it enters the embedding in two ways:
  \<^item> the Query Executor (\<^verbatim>\<open>connect\<close>, \<^verbatim>\<open>close\<close>, \<^verbatim>\<open>execute_query\<close>, \<^verbatim>\<open>fetch_one\<close>,
    \<^verbatim>\<open>fetch_all\<close>) is written over an arbitrary driver: a record of functions that say, for
    a database file, what each library call does (succeed, or raise a subclass of
    \<^verbatim>\<open>sqlite3.Error\<close>);
  \<^item> the repositories are run on \<open>sqlite\<close>, the driver that gives the fixed statements of
    pro.py the meaning SQLite documents for them, without lock or I/O faults.
\<close>

subsection \<open>Exceptions, values, handles\<close>

text \<open>The subclasses of \<^verbatim>\<open>sqlite3.Error\<close> the code tells apart, with the text of \<^verbatim>\<open>str(e)\<close>.\<close>

datatype sqlite_error =
    OperationalError string
  | IntegrityError string
  | OtherSqliteError string

text \<open>A column value as Python sees it: \<^verbatim>\<open>None\<close>, an \<^verbatim>\<open>int\<close> or a \<^verbatim>\<open>str\<close>.\<close>

datatype sqlval = SNull | SInt int | SText string

type_synonym row = "sqlval list"

text \<open>A \<^verbatim>\<open>sqlite3.Connection\<close> (to the named file) and a \<^verbatim>\<open>sqlite3.Cursor\<close>.\<close>

datatype connection = Connection string

record cursor_obj =
  lastrowid :: "int option"
  rowcount :: int

definition new_cursor :: cursor_obj where
  "new_cursor = \<lparr>lastrowid = None, rowcount = - 1\<rparr>"

text \<open>
  What one \<^verbatim>\<open>cursor.execute(query, params)\<close> that does not raise leaves behind: the
  database with the statement's changes pending, what fetching delivers (the rows, or an
  error raised by \<^verbatim>\<open>fetchone\<close>/\<^verbatim>\<open>fetchall\<close>), and the cursor's attributes.
\<close>

record 'db executed =
  pending :: 'db
  fetched :: "sqlite_error + row list"
  attrs :: cursor_obj

text \<open>
  The driver. \<open>sq_connect\<close> is \<^verbatim>\<open>sqlite3.connect(db_name, timeout=10)\<close>, \<open>sq_cursor\<close> is
  \<^verbatim>\<open>conn.cursor()\<close>, \<open>sq_pragma\<close> is the \<^verbatim>\<open>PRAGMA foreign_keys = ON\<close> of \<^verbatim>\<open>connect\<close>;
  each yields the error it raises, if any. \<^verbatim>\<open>conn.close()\<close> does not raise, and the
  library raises nothing but subclasses of \<^verbatim>\<open>sqlite3.Error\<close> (statements are strings, parameters
  are tuples of \<^verbatim>\<open>None\<close>, \<^verbatim>\<open>int\<close> and \<^verbatim>\<open>str\<close>).
\<close>

record ('q, 'db) driver =
  sq_connect :: "'db \<Rightarrow> sqlite_error option"
  sq_cursor :: "'db \<Rightarrow> sqlite_error option"
  sq_pragma :: "'db \<Rightarrow> sqlite_error option"
  sq_execute :: "'db \<Rightarrow> 'q \<Rightarrow> sqlite_error + 'db executed"
  sq_commit :: "'db \<Rightarrow> sqlite_error option"

text \<open>
  A \<^verbatim>\<open>DatabaseManager\<close> object with its three attributes, together with two things it
  acts on: the content of the file \<^verbatim>\<open>db_name\<close> names (only committed changes reach
  \<open>dbfile\<close>), and the number of connections it has opened and not closed
  (\<open>open_connections\<close>; \<^verbatim>\<open>sqlite3.connect\<close> adds one, \<^verbatim>\<open>conn.close()\<close> removes one).
\<close>

record 'db manager =
  db_name :: string
  conn :: "connection option"
  cursor :: "cursor_obj option"
  dbfile :: 'db
  open_connections :: nat

definition init_manager :: "string \<Rightarrow> 'db \<Rightarrow> 'db manager" where
  "init_manager name db =
     \<lparr>db_name = name, conn = None, cursor = None, dbfile = db, open_connections = 0\<rparr>"

definition not_connected :: "'db manager \<Rightarrow> bool" where
  "not_connected m \<longleftrightarrow> conn m = None \<and> cursor m = None"

subsection \<open>Connection Gateway: connect and close\<close>

text \<open>
  \<^verbatim>\<open>connect\<close> assigns \<^verbatim>\<open>self.conn\<close>, then \<^verbatim>\<open>self.cursor\<close>, then runs the pragma; an exception
  leaves the assignments made so far in place. The result pairs the exception raised
  (if any) with the manager.
\<close>

definition connect :: "('q, 'db) driver \<Rightarrow> 'db manager \<Rightarrow> sqlite_error option \<times> 'db manager" where
  "connect drv m =
     (case sq_connect drv (dbfile m) of
        Some e \<Rightarrow> (Some e, m)
      | None \<Rightarrow>
          (let m1 = m\<lparr>conn := Some (Connection (db_name m)),
                       open_connections := open_connections m + 1\<rparr> in
           case sq_cursor drv (dbfile m) of
             Some e \<Rightarrow> (Some e, m1)
           | None \<Rightarrow>
               (let m2 = m1\<lparr>cursor := Some new_cursor\<rparr> in
                case sq_pragma drv (dbfile m) of
                  Some e \<Rightarrow> (Some e, m2)
                | None \<Rightarrow> (None, m2))))"

definition close :: "'db manager \<Rightarrow> 'db manager" where
  "close m =
     (if conn m \<noteq> None
      then m\<lparr>conn := None, cursor := None, open_connections := open_connections m - 1\<rparr>
      else m)"

subsection \<open>Query Executor\<close>

text \<open>
  Each operation is \<^verbatim>\<open>try: ... except sqlite3.Error: return None finally: self.close()\<close>.
  The value is computed first, then \<open>close\<close> runs on every path. A change that was not
  committed is rolled back when the connection closes, so \<open>dbfile\<close> moves only when
  \<^verbatim>\<open>commit\<close> succeeded.
\<close>

definition execute_query ::
  "('q, 'db) driver \<Rightarrow> 'q \<Rightarrow> 'db manager \<Rightarrow> cursor_obj option \<times> 'db manager" where
  "execute_query drv q m =
     (case connect drv m of
        (Some e, m1) \<Rightarrow> (None, close m1)
      | (None, m1) \<Rightarrow>
          (case sq_execute drv (dbfile m1) q of
             Inl e \<Rightarrow> (None, close m1)
           | Inr x \<Rightarrow>
               (let m2 = m1\<lparr>cursor := Some (attrs x)\<rparr> in
                case sq_commit drv (pending x) of
                  Some e \<Rightarrow> (None, close m2)
                | None \<Rightarrow> (cursor m2, close (m2\<lparr>dbfile := pending x\<rparr>)))))"

definition fetchone :: "row list \<Rightarrow> row option" where
  "fetchone rows = (case rows of [] \<Rightarrow> None | r # _ \<Rightarrow> Some r)"

definition fetch_one ::
  "('q, 'db) driver \<Rightarrow> 'q \<Rightarrow> 'db manager \<Rightarrow> row option \<times> 'db manager" where
  "fetch_one drv q m =
     (case connect drv m of
        (Some e, m1) \<Rightarrow> (None, close m1)
      | (None, m1) \<Rightarrow>
          (case sq_execute drv (dbfile m1) q of
             Inl e \<Rightarrow> (None, close m1)
           | Inr x \<Rightarrow>
               (let m2 = m1\<lparr>cursor := Some (attrs x)\<rparr> in
                case fetched x of
                  Inl e \<Rightarrow> (None, close m2)
                | Inr rows \<Rightarrow> (fetchone rows, close m2))))"

definition fetch_all ::
  "('q, 'db) driver \<Rightarrow> 'q \<Rightarrow> 'db manager \<Rightarrow> row list option \<times> 'db manager" where
  "fetch_all drv q m =
     (case connect drv m of
        (Some e, m1) \<Rightarrow> (None, close m1)
      | (None, m1) \<Rightarrow>
          (case sq_execute drv (dbfile m1) q of
             Inl e \<Rightarrow> (None, close m1)
           | Inr x \<Rightarrow>
               (let m2 = m1\<lparr>cursor := Some (attrs x)\<rparr> in
                case fetched x of
                  Inl e \<Rightarrow> (None, close m2)
                | Inr rows \<Rightarrow> (Some rows, close m2))))"

text \<open>
  The storage layer reports an error for statement \<open>q\<close> when one of the library calls of
  the cycle raises: opening, the statement itself, and then the commit (for
  \<^verbatim>\<open>execute_query\<close>) or the fetch (for \<^verbatim>\<open>fetch_one\<close> and \<^verbatim>\<open>fetch_all\<close>).
\<close>

definition open_fails :: "('q, 'db) driver \<Rightarrow> 'db \<Rightarrow> bool" where
  "open_fails drv db \<longleftrightarrow>
     sq_connect drv db \<noteq> None \<or> sq_cursor drv db \<noteq> None \<or> sq_pragma drv db \<noteq> None"

definition execute_fails :: "('q, 'db) driver \<Rightarrow> 'db \<Rightarrow> 'q \<Rightarrow> bool" where
  "execute_fails drv db q \<longleftrightarrow>
     open_fails drv db \<or>
     (case sq_execute drv db q of Inl e \<Rightarrow> True | Inr x \<Rightarrow> sq_commit drv (pending x) \<noteq> None)"

definition fetch_fails :: "('q, 'db) driver \<Rightarrow> 'db \<Rightarrow> 'q \<Rightarrow> bool" where
  "fetch_fails drv db q \<longleftrightarrow>
     open_fails drv db \<or>
     (case sq_execute drv db q of Inl e \<Rightarrow> True | Inr x \<Rightarrow> (case fetched x of Inl e \<Rightarrow> True | Inr rows \<Rightarrow> False))"

subsection \<open>Strings and ordering as Python and SQLite have them\<close>

text \<open>
  \<^verbatim>\<open>str.lower()\<close> on the letters A to Z; every other character is left alone. (No
  character outside ASCII lower-cases to a letter of \<^verbatim>\<open>general\<close> or of
  \<^verbatim>\<open>duplicate column name\<close>, the only strings the code compares a lowered string with.)
\<close>

definition lower_char :: "char \<Rightarrow> char" where
  "lower_char c =
     (case map_of (zip ''ABCDEFGHIJKLMNOPQRSTUVWXYZ'' ''abcdefghijklmnopqrstuvwxyz'') c of
        Some d \<Rightarrow> d
      | None \<Rightarrow> c)"

definition lower :: "string \<Rightarrow> string" where
  "lower s = map lower_char s"

text \<open>Python's \<^verbatim>\<open>needle in haystack\<close> on strings.\<close>

fun starts_with :: "string \<Rightarrow> string \<Rightarrow> bool" where
  "starts_with [] hay = True"
| "starts_with (n # ns) [] = False"
| "starts_with (n # ns) (h # hs) = (n = h \<and> starts_with ns hs)"

fun str_contains :: "string \<Rightarrow> string \<Rightarrow> bool" where
  "str_contains needle [] = (needle = [])"
| "str_contains needle (h # hs) = (starts_with needle (h # hs) \<or> str_contains needle hs)"

text \<open>
  \<^verbatim>\<open>ORDER BY\<close>: a stable insertion sort by the comparison \<open>le\<close>. SQLite compares text
  byte by byte (collation BINARY), which is the order of \<open>string\<close> here; it leaves the
  order of rows with equal keys open, and the model keeps them in table order.
\<close>

fun insert_by :: "('a \<Rightarrow> 'a \<Rightarrow> bool) \<Rightarrow> 'a \<Rightarrow> 'a list \<Rightarrow> 'a list" where
  "insert_by le x [] = [x]"
| "insert_by le x (y # ys) = (if le x y then x # y # ys else y # insert_by le x ys)"

definition order_by :: "('a \<Rightarrow> 'a \<Rightarrow> bool) \<Rightarrow> 'a list \<Rightarrow> 'a list" where
  "order_by le xs = foldr (insert_by le) xs []"

text \<open>\<^verbatim>\<open>LIMIT n\<close>: a negative \<open>n\<close> means no upper bound on the number of rows.\<close>

definition sql_limit :: "int \<Rightarrow> 'a list \<Rightarrow> 'a list" where
  "sql_limit n rows = (if n < 0 then rows else take (nat n) rows)"

text \<open>
  The rowid an \<^verbatim>\<open>INTEGER PRIMARY KEY AUTOINCREMENT\<close> column gets: one more than the largest
  rowid the table ever held (\<open>seq\<close>, kept in \<^verbatim>\<open>sqlite_sequence\<close>) and than any rowid in it.
\<close>

definition next_rowid :: "int \<Rightarrow> int list \<Rightarrow> int" where
  "next_rowid seq ids = 1 + fold max ids (max 0 seq)"

definition text_or_null :: "string option \<Rightarrow> sqlval" where
  "text_or_null v = (case v of None \<Rightarrow> SNull | Some s \<Rightarrow> SText s)"

subsection \<open>The tables of init_db\<close>

record user_row =
  u_id :: int
  u_name :: string
  u_hash :: string

record category_row =
  c_id :: int
  c_user :: int
  c_name :: string

record task_row =
  t_id :: int
  t_user :: int
  t_description :: string
  t_category :: "string option"
  t_due_date :: "string option"
  t_completed :: int
  t_created_at :: "string option"

record quiz_row =
  q_id :: int
  q_user :: int
  q_topic :: string
  q_date :: string
  q_score :: int
  q_total :: int
  q_data :: "string option"

record chat_row =
  h_id :: int
  h_user :: int
  h_role :: string
  h_content :: string
  h_timestamp :: string

record database =
  users :: "user_row list"
  users_seq :: int
  task_categories :: "category_row list"
  task_categories_seq :: int
  tasks :: "task_row list"
  quiz_attempts :: "quiz_row list"
  quiz_attempts_seq :: int
  ai_chat_history :: "chat_row list"

subsection \<open>The statements the repositories issue\<close>

text \<open>
  \<^verbatim>\<open>get_tasks\<close> builds its \<^verbatim>\<open>WHERE\<close> clause by appending conjuncts to the query string,
  each with its parameters; a conjunct is one of:
\<close>

datatype task_cond =
    CompletedIs0             \<comment> \<open>\<^verbatim>\<open> AND completed = 0\<close>\<close>
  | CategoryIs string        \<comment> \<open>\<^verbatim>\<open> AND category = ?\<close>\<close>
  | DueIs string             \<comment> \<open>\<^verbatim>\<open> AND due_date = ?\<close>\<close>
  | DueWithin string string  \<comment> \<open>\<^verbatim>\<open> AND due_date > ? AND due_date <= ?\<close>\<close>
  | DueBefore string         \<comment> \<open>\<^verbatim>\<open> AND due_date < ?\<close>\<close>

text \<open>One constructor for each query string, carrying the parameter tuple.\<close>

datatype statement =
    InsertUser string string
      \<comment> \<open>\<^verbatim>\<open>INSERT INTO users (username, password_hash) VALUES (?, ?)\<close>\<close>
  | SelectUser string string
      \<comment> \<open>\<^verbatim>\<open>SELECT user_id, username FROM users WHERE username = ? AND password_hash = ?\<close>\<close>
  | InsertOrIgnoreCategory int string
      \<comment> \<open>\<^verbatim>\<open>INSERT OR IGNORE INTO task_categories (user_id, name) VALUES (?, ?)\<close>\<close>
  | SelectCategories int
      \<comment> \<open>\<^verbatim>\<open>SELECT name FROM task_categories WHERE user_id = ? ORDER BY name\<close>\<close>
  | UpdateTasksToGeneral int string
      \<comment> \<open>\<^verbatim>\<open>UPDATE tasks SET category = 'General' WHERE user_id = ? AND category = ?\<close>\<close>
  | DeleteCategory int string
      \<comment> \<open>\<^verbatim>\<open>DELETE FROM task_categories WHERE user_id = ? AND name = ?\<close>\<close>
  | SelectTasks int "task_cond list" "int option"
      \<comment> \<open>the query of \<^verbatim>\<open>get_tasks\<close>: user, appended conjuncts, \<^verbatim>\<open>LIMIT\<close> if appended\<close>
  | InsertQuizAttempt int string string int int string
      \<comment> \<open>\<^verbatim>\<open>INSERT INTO quiz_attempts (user_id, topic, quiz_date, score, total_questions, questions_data) VALUES (?, ?, ?, ?, ?, ?)\<close>\<close>
  | SelectQuizAttemptDetails int
      \<comment> \<open>\<^verbatim>\<open>SELECT topic, questions_data FROM quiz_attempts WHERE attempt_id = ?\<close>\<close>
  | SelectChatHistory int int
      \<comment> \<open>\<^verbatim>\<open>SELECT role, content, timestamp FROM ai_chat_history WHERE user_id = ? ORDER BY timestamp DESC LIMIT ?\<close>\<close>

subsection \<open>What SQLite does with them\<close>

text \<open>A comparison with \<^verbatim>\<open>NULL\<close> is not true, so a row with a null column fails the conjunct.\<close>

fun holds :: "task_row \<Rightarrow> task_cond \<Rightarrow> bool" where
  "holds t CompletedIs0 = (t_completed t = 0)"
| "holds t (CategoryIs c) = (t_category t = Some c)"
| "holds t (DueIs d) = (t_due_date t = Some d)"
| "holds t (DueWithin a b) = (case t_due_date t of None \<Rightarrow> False | Some d \<Rightarrow> a < d \<and> d \<le> b)"
| "holds t (DueBefore a) = (case t_due_date t of None \<Rightarrow> False | Some d \<Rightarrow> d < a)"

text \<open>
  \<^verbatim>\<open>ORDER BY CASE WHEN due_date IS NULL OR due_date = '' THEN 1 ELSE 0 END, due_date ASC,
  created_at DESC\<close>; \<^verbatim>\<open>NULL\<close> sorts below every text.
\<close>

definition null_le :: "string option \<Rightarrow> string option \<Rightarrow> bool" where
  "null_le a b = (case a of None \<Rightarrow> True | Some x \<Rightarrow> (case b of None \<Rightarrow> False | Some y \<Rightarrow> x \<le> y))"

definition no_due :: "task_row \<Rightarrow> nat" where
  "no_due t = (if t_due_date t = None \<or> t_due_date t = Some [] then 1 else 0)"

definition task_le :: "task_row \<Rightarrow> task_row \<Rightarrow> bool" where
  "task_le a b \<longleftrightarrow>
     no_due a < no_due b \<or>
     (no_due a = no_due b \<and>
      (if t_due_date a = t_due_date b then null_le (t_created_at b) (t_created_at a)
       else null_le (t_due_date a) (t_due_date b)))"

definition task_tuple :: "task_row \<Rightarrow> row" where
  "task_tuple t =
     [SInt (t_id t), SText (t_description t), text_or_null (t_category t),
      text_or_null (t_due_date t), SInt (t_completed t), text_or_null (t_created_at t)]"

definition select_tasks :: "database \<Rightarrow> int \<Rightarrow> task_cond list \<Rightarrow> int option \<Rightarrow> task_row list" where
  "select_tasks db uid conds lim =
     (let hits = order_by task_le (filter (\<lambda>t. t_user t = uid \<and> list_all (holds t) conds) (tasks db))
      in case lim of None \<Rightarrow> hits | Some n \<Rightarrow> sql_limit n hits)"

definition select_chat :: "database \<Rightarrow> int \<Rightarrow> int \<Rightarrow> chat_row list" where
  "select_chat db uid n =
     sql_limit n (order_by (\<lambda>a b. h_timestamp b \<le> h_timestamp a)
                   (filter (\<lambda>h. h_user h = uid) (ai_chat_history db)))"

definition chat_tuple :: "chat_row \<Rightarrow> row" where
  "chat_tuple h = [SText (h_role h), SText (h_content h), SText (h_timestamp h)]"

definition reading :: "database \<Rightarrow> row list \<Rightarrow> database executed" where
  "reading db rows = \<lparr>pending = db, fetched = Inr rows, attrs = new_cursor\<rparr>"

definition writing :: "database \<Rightarrow> int option \<Rightarrow> int \<Rightarrow> database executed" where
  "writing db rid n = \<lparr>pending = db, fetched = Inr [], attrs = \<lparr>lastrowid = rid, rowcount = n\<rparr>\<rparr>"

text \<open>
  \<open>run\<close> is \<^verbatim>\<open>cursor.execute\<close> on a connection with foreign keys enforced. The constraints
  are those \<^verbatim>\<open>init_db\<close> declares: \<^verbatim>\<open>username UNIQUE\<close>, \<^verbatim>\<open>UNIQUE(user_id, name)\<close> (a conflict
  makes \<^verbatim>\<open>INSERT OR IGNORE\<close> skip the row), and \<^verbatim>\<open>user_id REFERENCES users\<close>.
\<close>

fun run :: "database \<Rightarrow> statement \<Rightarrow> sqlite_error + database executed" where
  "run db (InsertUser name hash) =
     (if name \<in> set (map u_name (users db))
      then Inl (IntegrityError ''UNIQUE constraint failed: users.username'')
      else (let i = next_rowid (users_seq db) (map u_id (users db))
            in Inr (writing (db\<lparr>users := users db @ [\<lparr>u_id = i, u_name = name, u_hash = hash\<rparr>],
                                  users_seq := i\<rparr>) (Some i) 1)))"
| "run db (SelectUser name hash) =
     Inr (reading db (map (\<lambda>u. [SInt (u_id u), SText (u_name u)])
                        (filter (\<lambda>u. u_name u = name \<and> u_hash u = hash) (users db))))"
| "run db (InsertOrIgnoreCategory uid name) =
     (if (uid, name) \<in> set (map (\<lambda>c. (c_user c, c_name c)) (task_categories db))
      then Inr (writing db (Some 0) 0)
      else if uid \<notin> set (map u_id (users db))
      then Inl (IntegrityError ''FOREIGN KEY constraint failed'')
      else (let i = next_rowid (task_categories_seq db) (map c_id (task_categories db))
            in Inr (writing (db\<lparr>task_categories :=
                                    task_categories db @ [\<lparr>c_id = i, c_user = uid, c_name = name\<rparr>],
                                  task_categories_seq := i\<rparr>) (Some i) 1)))"
| "run db (SelectCategories uid) =
     Inr (reading db (map (\<lambda>n. [SText n])
                        (order_by (\<le>) (map c_name (filter (\<lambda>c. c_user c = uid) (task_categories db))))))"
| "run db (UpdateTasksToGeneral uid name) =
     (let hit = (\<lambda>t. t_user t = uid \<and> t_category t = Some name)
      in Inr (writing (db\<lparr>tasks := map (\<lambda>t. if hit t then t\<lparr>t_category := Some ''General''\<rparr> else t) (tasks db)\<rparr>)
                None (int (length (filter hit (tasks db))))))"
| "run db (DeleteCategory uid name) =
     (let hit = (\<lambda>c. c_user c = uid \<and> c_name c = name)
      in Inr (writing (db\<lparr>task_categories := filter (\<lambda>c. \<not> hit c) (task_categories db)\<rparr>)
                None (int (length (filter hit (task_categories db))))))"
| "run db (SelectTasks uid conds lim) =
     Inr (reading db (map task_tuple (select_tasks db uid conds lim)))"
| "run db (InsertQuizAttempt uid topic date score tot data) =
     (if uid \<notin> set (map u_id (users db))
      then Inl (IntegrityError ''FOREIGN KEY constraint failed'')
      else (let i = next_rowid (quiz_attempts_seq db) (map q_id (quiz_attempts db))
            in Inr (writing (db\<lparr>quiz_attempts := quiz_attempts db @
                                    [\<lparr>q_id = i, q_user = uid, q_topic = topic, q_date = date,
                                      q_score = score, q_total = tot, q_data = Some data\<rparr>],
                                  quiz_attempts_seq := i\<rparr>) (Some i) 1)))"
| "run db (SelectQuizAttemptDetails aid) =
     Inr (reading db (map (\<lambda>q. [SText (q_topic q), text_or_null (q_data q)])
                        (filter (\<lambda>q. q_id q = aid) (quiz_attempts db))))"
| "run db (SelectChatHistory uid n) =
     Inr (reading db (map chat_tuple (select_chat db uid n)))"

definition sqlite :: "(statement, database) driver" where
  "sqlite = \<lparr>sq_connect = (\<lambda>db. None), sq_cursor = (\<lambda>db. None), sq_pragma = (\<lambda>db. None),
             sq_execute = run, sq_commit = (\<lambda>db. None)\<rparr>"

subsection \<open>Domain repositories\<close>

text \<open>
  The repositories are written over any driver for \<open>statement\<close>. \<^verbatim>\<open>hashlib.sha256\<close> is a
  library function too: \<open>sha256_hex p\<close> stands for
  \<^verbatim>\<open>hashlib.sha256(p.encode()).hexdigest()\<close> and is a parameter.
\<close>

definition default_categories :: "string list" where
  "default_categories = [''General'', ''Academic'', ''Personal'', ''Project'', ''Urgent'']"

definition add_task_category ::
  "(statement, 'db) driver \<Rightarrow> int \<Rightarrow> string \<Rightarrow> 'db manager \<Rightarrow> cursor_obj option \<times> 'db manager" where
  "add_task_category drv user_id category_name m =
     execute_query drv (InsertOrIgnoreCategory user_id category_name) m"

text \<open>\<^verbatim>\<open>res and res.lastrowid\<close>: the row id when both are truthy.\<close>

definition truthy_lastrowid :: "cursor_obj option \<Rightarrow> int option" where
  "truthy_lastrowid res =
     (case res of
        None \<Rightarrow> None
      | Some c \<Rightarrow> (case lastrowid c of None \<Rightarrow> None | Some i \<Rightarrow> if i = 0 then None else Some i))"

definition add_user ::
  "(string \<Rightarrow> string) \<Rightarrow> (statement, 'db) driver \<Rightarrow> string \<Rightarrow> string \<Rightarrow> 'db manager
     \<Rightarrow> cursor_obj option \<times> 'db manager" where
  "add_user sha256_hex drv username password m =
     (let password_hash = sha256_hex password;
          (res, m1) = execute_query drv (InsertUser username password_hash) m
      in case truthy_lastrowid res of
           Some user_id \<Rightarrow>
             (res, fold (\<lambda>cat_name m'. snd (add_task_category drv user_id cat_name m'))
                        default_categories m1)
         | None \<Rightarrow> (res, m1))"

definition check_user ::
  "(string \<Rightarrow> string) \<Rightarrow> (statement, 'db) driver \<Rightarrow> string \<Rightarrow> string \<Rightarrow> 'db manager
     \<Rightarrow> row option \<times> 'db manager" where
  "check_user sha256_hex drv username password m =
     (let password_hash = sha256_hex password
      in fetch_one drv (SelectUser username password_hash) m)"

text \<open>
  \<^verbatim>\<open>[cat[0] for cat in categories]\<close> raises \<^verbatim>\<open>IndexError\<close> on an empty tuple;
  \<^verbatim>\<open>xs.index(x)\<close> and \<^verbatim>\<open>xs.pop(i)\<close> are used under the guard \<^verbatim>\<open>x in xs\<close> only.
\<close>

datatype py_exception = IndexError

definition first_columns :: "row list \<Rightarrow> py_exception + sqlval list" where
  "first_columns rows = (if list_all (\<lambda>r. r \<noteq> []) rows then Inr (map hd rows) else Inl IndexError)"

definition py_index :: "'a list \<Rightarrow> 'a \<Rightarrow> nat" where
  "py_index xs x = length (takeWhile (\<lambda>y. y \<noteq> x) xs)"

definition py_pop :: "'a list \<Rightarrow> nat \<Rightarrow> 'a list" where
  "py_pop xs i = take i xs @ drop (Suc i) xs"

definition general_first :: "sqlval list \<Rightarrow> sqlval list" where
  "general_first cat_list =
     (if SText ''General'' \<notin> set cat_list then SText ''General'' # cat_list
      else if py_index cat_list (SText ''General'') \<noteq> 0
      then SText ''General'' # py_pop cat_list (py_index cat_list (SText ''General''))
      else cat_list)"

definition get_task_categories ::
  "(statement, 'db) driver \<Rightarrow> int \<Rightarrow> 'db manager \<Rightarrow> (py_exception + sqlval list) \<times> 'db manager" where
  "get_task_categories drv user_id m =
     (let (categories, m1) = fetch_all drv (SelectCategories user_id) m
      in case (case categories of
                 None \<Rightarrow> Inr []
               | Some rows \<Rightarrow> if rows = [] then Inr [] else first_columns rows) of
           Inl e \<Rightarrow> (Inl e, m1)
         | Inr cat_list \<Rightarrow> (Inr (general_first cat_list), m1))"

text \<open>\<^verbatim>\<open>delete_task_category\<close> returns \<^verbatim>\<open>False\<close> (here \<open>Inl False\<close>) or what the last \<^verbatim>\<open>execute_query\<close> returns.\<close>

definition delete_task_category ::
  "(statement, 'db) driver \<Rightarrow> int \<Rightarrow> string \<Rightarrow> 'db manager
     \<Rightarrow> (bool + cursor_obj option) \<times> 'db manager" where
  "delete_task_category drv user_id category_name m =
     (if lower category_name = ''general'' then (Inl False, m)
      else (let (r1, m1) = execute_query drv (UpdateTasksToGeneral user_id category_name) m;
                (r2, m2) = execute_query drv (DeleteCategory user_id category_name) m1
            in (Inr r2, m2)))"

definition falsy :: "bool + cursor_obj option \<Rightarrow> bool" where
  "falsy r = (case r of Inl b \<Rightarrow> \<not> b | Inr None \<Rightarrow> True | Inr (Some c) \<Rightarrow> False)"

text \<open>
  The clock of \<^verbatim>\<open>get_tasks\<close>: \<open>today_str\<close> is \<^verbatim>\<open>datetime.date.today().strftime('%Y-%m-%d')\<close>,
  \<open>next_week_str\<close> the same for the date seven days later.
\<close>

record clock =
  today_str :: string
  next_week_str :: string

definition get_tasks ::
  "(statement, 'db) driver \<Rightarrow> clock \<Rightarrow> int \<Rightarrow> bool \<Rightarrow> string option \<Rightarrow> string option \<Rightarrow> int option
     \<Rightarrow> 'db manager \<Rightarrow> row list option \<times> 'db manager" where
  "get_tasks drv clk user_id show_completed category_filter due_filter limit m =
     (let q1 = (if \<not> show_completed then [CompletedIs0] else []);
          q2 = (case category_filter of
                  None \<Rightarrow> q1
                | Some c \<Rightarrow> if c \<noteq> [] \<and> c \<noteq> ''All Categories'' then q1 @ [CategoryIs c] else q1);
          q3 = (if due_filter = Some ''today'' then q2 @ [DueIs (today_str clk)]
                else if due_filter = Some ''upcoming''
                then q2 @ [DueWithin (today_str clk) (next_week_str clk)]
                else if due_filter = Some ''overdue''
                then q2 @ [DueBefore (today_str clk), CompletedIs0]
                else q2);
          lim = (case limit of None \<Rightarrow> None | Some n \<Rightarrow> if n \<noteq> 0 then Some n else None)
      in fetch_all drv (SelectTasks user_id q3 lim) m)"

definition add_quiz_attempt ::
  "(statement, 'db) driver \<Rightarrow> int \<Rightarrow> string \<Rightarrow> string \<Rightarrow> int \<Rightarrow> int \<Rightarrow> string \<Rightarrow> 'db manager
     \<Rightarrow> cursor_obj option \<times> 'db manager" where
  "add_quiz_attempt drv user_id topic quiz_date score total_questions questions_data_json m =
     execute_query drv
       (InsertQuizAttempt user_id topic quiz_date score total_questions questions_data_json) m"

definition get_quiz_attempt_details ::
  "(statement, 'db) driver \<Rightarrow> int \<Rightarrow> 'db manager \<Rightarrow> row option \<times> 'db manager" where
  "get_quiz_attempt_details drv attempt_id m = fetch_one drv (SelectQuizAttemptDetails attempt_id) m"

definition get_chat_history ::
  "(statement, 'db) driver \<Rightarrow> int \<Rightarrow> int \<Rightarrow> 'db manager \<Rightarrow> row list \<times> 'db manager" where
  "get_chat_history drv user_id limit m =
     (let (history, m1) = fetch_all drv (SelectChatHistory user_id limit) m
      in ((case history of None \<Rightarrow> [] | Some rows \<Rightarrow> if rows = [] then [] else rev rows), m1))"

subsection \<open>Schema Migrator: init_db\<close>

text \<open>
  \<^verbatim>\<open>init_db\<close> works on a cursor of its own. The store it talks to is again a parameter:
  \<open>ss_table_lookup\<close> is the \<^verbatim>\<open>sqlite_master\<close> query of \<^verbatim>\<open>_table_exists\<close> with
  \<^verbatim>\<open>fetchone() is not None\<close>, \<open>ss_table_info\<close> the column names \<^verbatim>\<open>info[1]\<close> of
  \<^verbatim>\<open>PRAGMA table_info\<close>, \<open>ss_alter_add\<close> is \<^verbatim>\<open>ALTER TABLE t ADD COLUMN d\<close>, \<open>ss_create\<close> a
  \<^verbatim>\<open>CREATE TABLE IF NOT EXISTS\<close>, \<open>ss_commit\<close> is \<^verbatim>\<open>conn.commit()\<close>. A statement that
  raises leaves the schema as it was. Python's \<^verbatim>\<open>sqlite3\<close> runs schema statements outside
  a transaction, so they are durable without the commit.
\<close>

record 's schema_store =
  ss_table_lookup :: "'s \<Rightarrow> string \<Rightarrow> sqlite_error + bool"
  ss_table_info :: "'s \<Rightarrow> string \<Rightarrow> sqlite_error + string list"
  ss_alter_add :: "'s \<Rightarrow> string \<Rightarrow> string \<Rightarrow> sqlite_error + 's"
  ss_create :: "'s \<Rightarrow> string \<times> string list \<Rightarrow> sqlite_error + 's"
  ss_commit :: "'s \<Rightarrow> sqlite_error option"

text \<open>The schema, with the \<^verbatim>\<open>ALTER TABLE\<close> statements executed so far (table, column definition).\<close>

record 's migration =
  schema :: 's
  alters :: "(string \<times> string) list"

definition table_exists :: "'s schema_store \<Rightarrow> 's \<Rightarrow> string \<Rightarrow> sqlite_error + bool" where
  "table_exists st s table_name = ss_table_lookup st s table_name"

definition column_exists :: "'s schema_store \<Rightarrow> 's \<Rightarrow> string \<Rightarrow> string \<Rightarrow> sqlite_error + bool" where
  "column_exists st s table_name column_name =
     (case table_exists st s table_name of
        Inl e \<Rightarrow> Inl e
      | Inr found \<Rightarrow>
          if \<not> found then Inr False
          else (case ss_table_info st s table_name of
                  Inl e \<Rightarrow> Inl e
                | Inr columns \<Rightarrow> Inr (column_name \<in> set columns)))"

text \<open>
  \<^verbatim>\<open>_try_add_column\<close>. \<open>Inl e\<close> is the exception it lets through (\<^verbatim>\<open>raise\<close>, or an error of
  one of the checks, which are outside its \<^verbatim>\<open>try\<close>); \<open>Inr b\<close> is the value returned.
\<close>

definition try_add_column ::
  "'s schema_store \<Rightarrow> string \<Rightarrow> string \<Rightarrow> string \<Rightarrow> 's migration
     \<Rightarrow> (sqlite_error + bool) \<times> 's migration" where
  "try_add_column st table_name column_definition_sql column_name_for_check ms =
     (case (case table_exists st (schema ms) table_name of
              Inl e \<Rightarrow> Inl e
            | Inr found \<Rightarrow>
                if \<not> found then Inr False
                else (case column_exists st (schema ms) table_name column_name_for_check of
                        Inl e \<Rightarrow> Inl e
                      | Inr present \<Rightarrow> Inr (\<not> present))) of
        Inl e \<Rightarrow> (Inl e, ms)
      | Inr True \<Rightarrow>
          (let ms1 = ms\<lparr>alters := alters ms @ [(table_name, column_definition_sql)]\<rparr>
           in case ss_alter_add st (schema ms) table_name column_definition_sql of
                Inr s' \<Rightarrow> (Inr True, ms1\<lparr>schema := s'\<rparr>)
              | Inl (OperationalError msg) \<Rightarrow>
                  if str_contains ''duplicate column name'' (lower msg) then (Inr False, ms1)
                  else (Inl (OperationalError msg), ms1)
              | Inl e \<Rightarrow> (Inl e, ms1))
      | Inr False \<Rightarrow>
          (case column_exists st (schema ms) table_name column_name_for_check of
             Inl e \<Rightarrow> (Inl e, ms)
           | Inr present \<Rightarrow> (Inr False, ms)))"

text \<open>The triples of phase 1: table, column definition, column name.\<close>

definition category_column_sql :: string where
  "category_column_sql = ''category TEXT DEFAULT '' @ [CHR 0x27] @ ''General'' @ [CHR 0x27]"

definition column_migrations :: "(string \<times> string \<times> string) list" where
  "column_migrations =
     [(''tasks'', category_column_sql, ''category''),
      (''tasks'', ''created_at TEXT'', ''created_at''),
      (''quiz_attempts'', ''questions_data TEXT'', ''questions_data'')]"

text \<open>
  The calls of \<^verbatim>\<open>_try_add_column\<close> in order, with \<^verbatim>\<open>made_schema_changes\<close>; the first
  exception ends them.
\<close>

fun add_columns ::
  "'s schema_store \<Rightarrow> (string \<times> string \<times> string) list \<Rightarrow> bool \<Rightarrow> 's migration
     \<Rightarrow> (sqlite_error + bool) \<times> 's migration" where
  "add_columns st [] made_schema_changes ms = (Inr made_schema_changes, ms)"
| "add_columns st ((t, d, c) # rest) made_schema_changes ms =
     (case try_add_column st t d c ms of
        (Inl e, ms1) \<Rightarrow> (Inl e, ms1)
      | (Inr changed, ms1) \<Rightarrow> add_columns st rest (if changed then True else made_schema_changes) ms1)"

text \<open>
  Phase 1, the first \<^verbatim>\<open>try\<close> of \<^verbatim>\<open>init_db\<close>: the result is the error its \<^verbatim>\<open>except\<close> clause
  caught and printed, if any.
\<close>

definition migrate_columns :: "'s schema_store \<Rightarrow> 's migration \<Rightarrow> sqlite_error option \<times> 's migration" where
  "migrate_columns st ms =
     (case add_columns st column_migrations False ms of
        (Inl e, ms1) \<Rightarrow> (Some e, ms1)
      | (Inr made_schema_changes, ms1) \<Rightarrow>
          if made_schema_changes then (ss_commit st (schema ms1), ms1) else (None, ms1))"

text \<open>The tables of phase 2 with their columns.\<close>

definition table_definitions :: "(string \<times> string list) list" where
  "table_definitions =
     [(''users'', [''user_id'', ''username'', ''password_hash'']),
      (''task_categories'', [''category_id'', ''user_id'', ''name'']),
      (''tasks'', [''task_id'', ''user_id'', ''description'', ''category'', ''due_date'',
                   ''completed'', ''created_at'']),
      (''study_logs'', [''log_id'', ''user_id'', ''subject'', ''start_time'',
                        ''duration_minutes'', ''notes'']),
      (''quiz_attempts'', [''attempt_id'', ''user_id'', ''topic'', ''quiz_date'', ''score'',
                           ''total_questions'', ''questions_data'']),
      (''config'', [''key'', ''value'']),
      (''ai_generated_content'', [''content_id'', ''user_id'', ''type'', ''title'', ''input_text'',
                                  ''output_text'', ''created_at'']),
      (''ai_chat_history'', [''message_id'', ''user_id'', ''role'', ''content'', ''timestamp''])]"

fun create_all :: "'s schema_store \<Rightarrow> (string \<times> string list) list \<Rightarrow> 's \<Rightarrow> sqlite_error option \<times> 's" where
  "create_all st [] s = (ss_commit st s, s)"
| "create_all st (q # queries) s =
     (case ss_create st s q of
        Inl e \<Rightarrow> (Some e, s)
      | Inr s' \<Rightarrow> create_all st queries s')"

text \<open>
  \<^verbatim>\<open>init_db\<close> from its opened connection on: phase 1, then phase 2 whatever phase 1 did.
  The result lists the errors the two \<^verbatim>\<open>except\<close> clauses printed.
\<close>

definition init_db :: "'s schema_store \<Rightarrow> 's migration \<Rightarrow> (sqlite_error option \<times> sqlite_error option) \<times> 's migration" where
  "init_db st ms =
     (let (e1, ms1) = migrate_columns st ms;
          (e2, s2) = create_all st table_definitions (schema ms1)
      in ((e1, e2), ms1\<lparr>schema := s2\<rparr>))"

text \<open>
  SQLite's schema: the tables in creation order, each with its column names. SQLite
  matches the names in a statement without regard to ASCII case; the \<^verbatim>\<open>sqlite_master\<close>
  query and Python's \<^verbatim>\<open>in\<close> compare exactly. \<^verbatim>\<open>_try_add_column\<close> reaches
  \<^verbatim>\<open>PRAGMA table_info\<close> and \<^verbatim>\<open>ALTER TABLE\<close> only for a table found under its exact name,
  so the table is looked up by that name; the new column's name is the first word of its
  definition, and it is a duplicate when it matches an existing column up to case.
\<close>

type_synonym sql_schema = "(string \<times> string list) list"

definition column_name_of :: "string \<Rightarrow> string" where
  "column_name_of column_definition_sql = takeWhile (\<lambda>c. c \<noteq> CHR '' '') column_definition_sql"

definition table_info :: "sql_schema \<Rightarrow> string \<Rightarrow> string list" where
  "table_info s t = (case map_of s t of None \<Rightarrow> [] | Some cs \<Rightarrow> cs)"

definition alter_add :: "sql_schema \<Rightarrow> string \<Rightarrow> string \<Rightarrow> sqlite_error + sql_schema" where
  "alter_add s t d =
     (case map_of s t of
        None \<Rightarrow> Inl (OperationalError (''no such table: '' @ t))
      | Some cs \<Rightarrow>
          if lower (column_name_of d) \<in> set (map lower cs)
          then Inl (OperationalError (''duplicate column name: '' @ column_name_of d))
          else Inr (map (\<lambda>(n, cs'). if n = t then (n, cs' @ [column_name_of d]) else (n, cs')) s))"

definition create_if_not_exists :: "sql_schema \<Rightarrow> string \<times> string list \<Rightarrow> sqlite_error + sql_schema" where
  "create_if_not_exists s q =
     (if lower (fst q) \<in> set (map (\<lambda>(n, cs). lower n) s) then Inr s else Inr (s @ [q]))"

definition sqlite_schema :: "sql_schema schema_store" where
  "sqlite_schema =
     \<lparr>ss_table_lookup = (\<lambda>s t. Inr (t \<in> set (map fst s))),
      ss_table_info = (\<lambda>s t. Inr (table_info s t)),
      ss_alter_add = alter_add,
      ss_create = create_if_not_exists,
      ss_commit = (\<lambda>s. None)\<rparr>"

subsection \<open>Notions used to state the properties\<close>

text \<open>The category names stored for a user, in table order.\<close>

definition stored_categories :: "database \<Rightarrow> int \<Rightarrow> string list" where
  "stored_categories db uid = map c_name (filter (\<lambda>c. c_user c = uid) (task_categories db))"

text \<open>
  Referential integrity of \<^verbatim>\<open>task_categories\<close>: every row belongs to a stored user. SQLite
  keeps it, as every connection of the manager runs with \<^verbatim>\<open>foreign_keys = ON\<close>.
\<close>

definition categories_owned :: "database \<Rightarrow> bool" where
  "categories_owned db = list_all (\<lambda>c. c_user c \<in> set (map u_id (users db))) (task_categories db)"

text \<open>
  The schema once table \<open>t\<close> has a column \<open>c\<close>: the column is appended when the table
  exists and has no column of that name (up to case).
\<close>

definition with_column :: "sql_schema \<Rightarrow> string \<Rightarrow> string \<Rightarrow> sql_schema" where
  "with_column s t c =
     (if t \<in> set (map fst s) \<and> lower c \<notin> set (map lower (table_info s t))
      then map (\<lambda>(n, cs). if n = t then (n, cs @ [c]) else (n, cs)) s
      else s)"

text \<open>Nothing is left to add for column \<open>c\<close> of table \<open>t\<close>.\<close>

definition settled :: "sql_schema \<Rightarrow> string \<Rightarrow> string \<Rightarrow> bool" where
  "settled s t c \<longleftrightarrow> t \<notin> set (map fst s) \<or> lower c \<in> set (map lower (table_info s t))"

text \<open>
  The zero-padded text \<^verbatim>\<open>YYYY-MM-DD\<close> of a date: four digits, a dash, two digits, a dash,
  two digits. For the years 1000 to 9999 it is what \<^verbatim>\<open>date.strftime('%Y-%m-%d')\<close> returns
  (for an earlier year \<^verbatim>\<open>%Y\<close> may come without the leading zeros); \<^verbatim>\<open>date.today()\<close> is
  in that range.
\<close>

definition digit :: "nat \<Rightarrow> char" where
  "digit n = char_of (48 + n)"

definition two_digits :: "nat \<Rightarrow> string" where
  "two_digits n = [digit (n div 10), digit (n mod 10)]"

definition iso_date :: "nat \<Rightarrow> nat \<Rightarrow> nat \<Rightarrow> string" where
  "iso_date y m d =
     two_digits (y div 100) @ two_digits (y mod 100) @ ''-'' @ two_digits m @ ''-'' @ two_digits d"

subsection \<open>Example drivers and states\<close>

text \<open>A driver for a locked file: the connection opens, the pragma raises.\<close>

definition locked :: "(unit, unit) driver" where
  "locked = \<lparr>sq_connect = (\<lambda>db. None), sq_cursor = (\<lambda>db. None),
             sq_pragma = (\<lambda>db. Some (OperationalError ''database is locked'')),
             sq_execute = (\<lambda>db q. Inl (OtherSqliteError [])), sq_commit = (\<lambda>db. None)\<rparr>"

text \<open>SQLite with the file held by another writer: every statement raises.\<close>

definition busy :: "(statement, database) driver" where
  "busy = sqlite\<lparr>sq_execute := (\<lambda>db q. Inl (OperationalError ''database is locked''))\<rparr>"

text \<open>The tables as \<^verbatim>\<open>init_db\<close> creates them in a new file.\<close>

definition empty_db :: database where
  "empty_db = \<lparr>users = [], users_seq = 0, task_categories = [], task_categories_seq = 0,
               tasks = [], quiz_attempts = [], quiz_attempts_seq = 0, ai_chat_history = []\<rparr>"

text \<open>
  A stand-in for the digest in the examples (any function will do there), and the manager
  of the application on a new file.
\<close>

definition toy_digest :: "string \<Rightarrow> string" where
  "toy_digest p = rev p"

definition fresh_manager :: "database manager" where
  "fresh_manager = init_manager ''ai_study_assistant.db'' empty_db"

definition alice_manager :: "database manager" where
  "alice_manager = snd (add_user toy_digest sqlite ''alice'' ''secret1'' fresh_manager)"

text \<open>
  Alice with one open task in her category \<^verbatim>\<open>Academic\<close>, one completed task and one task
  without due date.
\<close>

definition read_ch3 :: task_row where
  "read_ch3 = \<lparr>t_id = 1, t_user = 1, t_description = ''Read Ch.3'', t_category = Some ''Academic'',
               t_due_date = Some ''2024-01-10'', t_completed = 0,
               t_created_at = Some ''2024-01-02 08:00:00''\<rparr>"

definition hand_in :: task_row where
  "hand_in = \<lparr>t_id = 2, t_user = 1, t_description = ''Hand in essay'', t_category = Some ''Urgent'',
              t_due_date = Some ''2024-01-05'', t_completed = 1,
              t_created_at = Some ''2024-01-02 08:05:00''\<rparr>"

definition tidy_desk :: task_row where
  "tidy_desk = \<lparr>t_id = 3, t_user = 1, t_description = ''Tidy desk'', t_category = Some ''General'',
                t_due_date = None, t_completed = 0,
                t_created_at = Some ''2024-01-03 10:00:00''\<rparr>"

definition study_db :: database where
  "study_db = (dbfile alice_manager)\<lparr>tasks := [read_ch3, hand_in, tidy_desk]\<rparr>"

definition study_manager :: "database manager" where
  "study_manager = init_manager ''ai_study_assistant.db'' study_db"

text \<open>
  Two open tasks of Alice whose due dates are not zero-padded dates: one due on 9 January,
  written with a blank for the padding (\<^verbatim>\<open>datetime.strptime(due_str, '%Y-%m-%d')\<close>, the
  check of the task form, accepts this text, and \<^verbatim>\<open>add_task\<close> stores the text as it was
  typed), and one whose due date is the empty string; and the clock of 5 January 2024.
\<close>

definition see_dentist :: task_row where
  "see_dentist = \<lparr>t_id = 4, t_user = 1, t_description = ''See dentist'', t_category = Some ''Personal'',
                  t_due_date = Some ''2024-01- 9'', t_completed = 0,
                  t_created_at = Some ''2024-01-04 18:00:00''\<rparr>"

definition someday :: task_row where
  "someday = \<lparr>t_id = 5, t_user = 1, t_description = ''Sort photos'', t_category = Some ''General'',
              t_due_date = Some [], t_completed = 0,
              t_created_at = Some ''2024-01-04 18:05:00''\<rparr>"

definition loose_dates_db :: database where
  "loose_dates_db = (dbfile alice_manager)\<lparr>tasks := [see_dentist, someday]\<rparr>"

definition loose_dates_manager :: "database manager" where
  "loose_dates_manager = init_manager ''ai_study_assistant.db'' loose_dates_db"

definition jan5 :: clock where
  "jan5 = \<lparr>today_str = ''2024-01-05'', next_week_str = ''2024-01-12''\<rparr>"

text \<open>A clock for the examples: today is 12 January 2024.\<close>

definition jan12 :: clock where
  "jan12 = \<lparr>today_str = ''2024-01-12'', next_week_str = ''2024-01-19''\<rparr>"

text \<open>Alice's chat: three messages, two of them written in the same second.\<close>

definition chat_db :: database where
  "chat_db = (dbfile alice_manager)\<lparr>ai_chat_history :=
     [\<lparr>h_id = 1, h_user = 1, h_role = ''user'', h_content = ''What is a limit?'',
       h_timestamp = ''2024-01-12 09:00:00''\<rparr>,
      \<lparr>h_id = 2, h_user = 1, h_role = ''model'', h_content = ''A value a sequence approaches.'',
       h_timestamp = ''2024-01-12 09:00:02''\<rparr>,
      \<lparr>h_id = 3, h_user = 1, h_role = ''user'', h_content = ''Thanks'',
       h_timestamp = ''2024-01-12 09:00:02''\<rparr>]\<rparr>"

definition chat_manager :: "database manager" where
  "chat_manager = init_manager ''ai_study_assistant.db'' chat_db"

text \<open>
  A schema of an early version (\<^verbatim>\<open>tasks\<close> has a column \<^verbatim>\<open>Category\<close>, written with a
  capital, and lacks \<^verbatim>\<open>created_at\<close>; \<^verbatim>\<open>quiz_attempts\<close> lacks \<^verbatim>\<open>questions_data\<close>), after
  and before its migration.
\<close>

definition migrated_schema :: sql_schema where
  "migrated_schema =
     [(''users'', [''user_id'', ''username'', ''password_hash'']),
      (''tasks'', [''task_id'', ''user_id'', ''description'', ''due_date'', ''completed'', ''Category'',
                   ''created_at'']),
      (''quiz_attempts'', [''attempt_id'', ''user_id'', ''topic'', ''quiz_date'', ''score'',
                           ''total_questions'', ''questions_data''])]"

definition legacy_schema :: sql_schema where
  "legacy_schema =
     [(''users'', [''user_id'', ''username'', ''password_hash'']),
      (''tasks'', [''task_id'', ''user_id'', ''description'', ''due_date'', ''completed'', ''Category'']),
      (''quiz_attempts'', [''attempt_id'', ''user_id'', ''topic'', ''quiz_date'', ''score'',
                           ''total_questions''])]"

section \<open>Properties\<close>

subsection \<open>The executor's handles\<close>

lemma connections_balanced:
  assumes "conn m = None"
  shows "open_connections (snd (execute_query drv q m)) = open_connections m"
    and "open_connections (snd (fetch_one drv q m)) = open_connections m"
    and "open_connections (snd (fetch_all drv q m)) = open_connections m"
  using assms
  by (auto simp: execute_query_def fetch_one_def fetch_all_def connect_def close_def Let_def
           split: option.splits sum.splits)

text \<open>
  C1. Let the manager be in a state its own operations produce (no cursor without a
  connection, as after \<^verbatim>\<open>__init__\<close> and after every operation). Then for every driver
  and every statement with its parameters, \<^verbatim>\<open>execute_query\<close>, \<^verbatim>\<open>fetch_one\<close> and
  \<^verbatim>\<open>fetch_all\<close> end with \<^verbatim>\<open>conn\<close> and \<^verbatim>\<open>cursor\<close> reset to \<^verbatim>\<open>None\<close>, on every path, and
  (started without a connection) with every connection they opened closed again; and
  whenever a library call of the cycle raises, the operation returns \<^verbatim>\<open>None\<close> (and
  \<^verbatim>\<open>execute_query\<close> leaves the file as it was). The operations have no exceptional
  result: every \<^verbatim>\<open>sqlite3.Error\<close> is turned into the sentinel.
\<close>

theorem executor_contains_errors_and_closes:
  assumes "conn m = None \<longrightarrow> cursor m = None"
  shows "not_connected (snd (execute_query drv q m))
       \<and> not_connected (snd (fetch_one drv q m))
       \<and> not_connected (snd (fetch_all drv q m))
       \<and> (conn m = None \<longrightarrow>
            open_connections (snd (execute_query drv q m)) = open_connections m
            \<and> open_connections (snd (fetch_one drv q m)) = open_connections m
            \<and> open_connections (snd (fetch_all drv q m)) = open_connections m)
       \<and> (execute_fails drv (dbfile m) q \<longrightarrow>
            fst (execute_query drv q m) = None \<and> dbfile (snd (execute_query drv q m)) = dbfile m)
       \<and> (fetch_fails drv (dbfile m) q \<longrightarrow>
            fst (fetch_one drv q m) = None \<and> fst (fetch_all drv q m) = None)"
proof (intro conjI impI)
  show "not_connected (snd (execute_query drv q m))"
    using assms
    by (auto simp: execute_query_def connect_def close_def not_connected_def Let_def
             split: option.splits sum.splits)
  show "not_connected (snd (fetch_one drv q m))"
    using assms
    by (auto simp: fetch_one_def connect_def close_def not_connected_def Let_def
             split: option.splits sum.splits)
  show "not_connected (snd (fetch_all drv q m))"
    using assms
    by (auto simp: fetch_all_def connect_def close_def not_connected_def Let_def
             split: option.splits sum.splits)
next
  assume closed: "conn m = None"
  then show "open_connections (snd (execute_query drv q m)) = open_connections m"
    by (rule connections_balanced)
  from closed show "open_connections (snd (fetch_one drv q m)) = open_connections m"
    by (rule connections_balanced)
  from closed show "open_connections (snd (fetch_all drv q m)) = open_connections m"
    by (rule connections_balanced)
next
  assume failing: "execute_fails drv (dbfile m) q"
  then show "fst (execute_query drv q m) = None"
    by (auto simp: execute_query_def execute_fails_def open_fails_def connect_def Let_def
             split: option.splits sum.splits)
  from failing show "dbfile (snd (execute_query drv q m)) = dbfile m"
    by (auto simp: execute_query_def execute_fails_def open_fails_def connect_def close_def Let_def
             split: option.splits sum.splits)
next
  assume failing: "fetch_fails drv (dbfile m) q"
  then show "fst (fetch_one drv q m) = None"
    by (auto simp: fetch_one_def fetch_fails_def open_fails_def connect_def Let_def
             split: option.splits sum.splits)
  from failing show "fst (fetch_all drv q m) = None"
    by (auto simp: fetch_all_def fetch_fails_def open_fails_def connect_def Let_def
             split: option.splits sum.splits)
qed

theorem executor_contains_errors_and_closes_witness:
  "not_connected (init_manager ''ai_study_assistant.db'' ())
   \<and> execute_fails locked () () \<and> fetch_fails locked () ()
   \<and> not_connected (snd (execute_query locked () (init_manager ''ai_study_assistant.db'' ())))
   \<and> not_connected (snd (fetch_one locked () (init_manager ''ai_study_assistant.db'' ())))
   \<and> not_connected (snd (fetch_all locked () (init_manager ''ai_study_assistant.db'' ())))
   \<and> open_connections (snd (execute_query locked () (init_manager ''ai_study_assistant.db'' ()))) = 0
   \<and> open_connections (snd (fetch_one locked () (init_manager ''ai_study_assistant.db'' ()))) = 0
   \<and> open_connections (snd (fetch_all locked () (init_manager ''ai_study_assistant.db'' ()))) = 0
   \<and> fst (execute_query locked () (init_manager ''ai_study_assistant.db'' ())) = None
   \<and> fst (fetch_one locked () (init_manager ''ai_study_assistant.db'' ())) = None
   \<and> fst (fetch_all locked () (init_manager ''ai_study_assistant.db'' ())) = None"
proof -
  have inv: "conn (init_manager ''ai_study_assistant.db'' ()) = None \<longrightarrow>
             cursor (init_manager ''ai_study_assistant.db'' ()) = None"
    by (simp add: init_manager_def)
  have c: "conn (init_manager ''ai_study_assistant.db'' ()) = None"
          "open_connections (init_manager ''ai_study_assistant.db'' ()) = 0"
    by (simp_all add: init_manager_def)
  have f1: "execute_fails locked () ()"
    by (simp add: execute_fails_def open_fails_def locked_def)
  have f2: "fetch_fails locked () ()"
    by (simp add: fetch_fails_def open_fails_def locked_def)
  show ?thesis
    using executor_contains_errors_and_closes [OF inv, of locked "()"] f1 f2 c
    by (simp add: not_connected_def) (simp add: init_manager_def)
qed

subsection \<open>The executor on the reference driver\<close>

lemma connect_sqlite:
  "connect sqlite m = (None, m\<lparr>conn := Some (Connection (db_name m)),
                                open_connections := open_connections m + 1,
                                cursor := Some new_cursor\<rparr>)"
  by (simp add: connect_def sqlite_def)

lemma execute_query_sqlite_fst:
  "fst (execute_query sqlite q m) = (case run (dbfile m) q of Inl e \<Rightarrow> None | Inr x \<Rightarrow> Some (attrs x))"
  by (simp add: execute_query_def connect_sqlite) (simp add: sqlite_def split: sum.splits)

lemma execute_query_sqlite_dbfile:
  "dbfile (snd (execute_query sqlite q m)) = (case run (dbfile m) q of Inl e \<Rightarrow> dbfile m | Inr x \<Rightarrow> pending x)"
  by (simp add: execute_query_def connect_sqlite) (simp add: sqlite_def close_def split: sum.splits)

lemma fetch_all_sqlite_fst:
  "fst (fetch_all sqlite q m) =
     (case run (dbfile m) q of Inl e \<Rightarrow> None
      | Inr x \<Rightarrow> (case fetched x of Inl e \<Rightarrow> None | Inr rows \<Rightarrow> Some rows))"
  by (simp add: fetch_all_def connect_sqlite) (simp add: sqlite_def split: sum.splits)

lemma fetch_one_sqlite_fst:
  "fst (fetch_one sqlite q m) =
     (case run (dbfile m) q of Inl e \<Rightarrow> None
      | Inr x \<Rightarrow> (case fetched x of Inl e \<Rightarrow> None | Inr rows \<Rightarrow> fetchone rows))"
  by (simp add: fetch_one_def connect_sqlite) (simp add: sqlite_def split: sum.splits)

lemma fetch_all_dbfile: "dbfile (snd (fetch_all drv q m)) = dbfile m"
  by (auto simp: fetch_all_def connect_def close_def Let_def split: option.splits sum.splits)

lemma fetch_one_dbfile: "dbfile (snd (fetch_one drv q m)) = dbfile m"
  by (auto simp: fetch_one_def connect_def close_def Let_def split: option.splits sum.splits)

subsection \<open>ORDER BY and LIMIT\<close>

lemma mset_insert_by: "mset (insert_by le x xs) = add_mset x (mset xs)"
  by (induction xs) auto

lemma mset_order_by: "mset (order_by le xs) = mset xs"
  by (induction xs) (auto simp: order_by_def mset_insert_by)

lemma set_order_by: "set (order_by le xs) = set xs"
  using mset_order_by [of le xs] by (metis set_mset_mset)

lemma length_order_by: "length (order_by le xs) = length xs"
  using mset_order_by [of le xs] by (metis size_mset)

lemma sorted_wrt_insert_by:
  assumes total: "\<And>a b. le a b \<or> le b a" and trans: "\<And>a b c. le a b \<Longrightarrow> le b c \<Longrightarrow> le a c"
  shows "sorted_wrt le xs \<Longrightarrow> sorted_wrt le (insert_by le x xs)"
proof (induction xs)
  case Nil
  then show ?case by simp
next
  case (Cons y ys)
  show ?case
  proof (cases "le x y")
    case True
    with Cons.prems trans show ?thesis by auto
  next
    case False
    with total have "le y x" by blast
    moreover have "set (insert_by le x ys) = insert x (set ys)"
      using mset_insert_by [of le x ys] by (metis set_mset_add_mset_insert set_mset_mset)
    ultimately show ?thesis using False Cons by auto
  qed
qed

lemma sorted_wrt_order_by:
  assumes total: "\<And>a b. le a b \<or> le b a" and trans: "\<And>a b c. le a b \<Longrightarrow> le b c \<Longrightarrow> le a c"
  shows "sorted_wrt le (order_by le xs)"
proof (induction xs)
  case Nil
  then show ?case by (simp add: order_by_def)
next
  case (Cons x xs)
  have "order_by le (x # xs) = insert_by le x (order_by le xs)"
    by (simp add: order_by_def)
  with Cons sorted_wrt_insert_by [of le, OF total trans] show ?case by simp
qed

lemma set_sql_limit: "set (sql_limit n xs) \<subseteq> set xs"
  by (auto simp: sql_limit_def dest: in_set_takeD)

lemma length_sql_limit: "0 \<le> n \<Longrightarrow> length (sql_limit n xs) = min (nat n) (length xs)"
  by (simp add: sql_limit_def)

subsection \<open>Row ids\<close>

lemma fold_max_ge: "(a::int) \<le> fold max ids a"
  by (induction ids arbitrary: a) (auto intro: order_trans [OF max.cobounded2])

lemma fold_max_ge_elem: "i \<in> set ids \<Longrightarrow> (i::int) \<le> fold max ids a"
proof (induction ids arbitrary: a)
  case Nil
  then show ?case by simp
next
  case (Cons j ids)
  show ?case
  proof (cases "i = j")
    case True
    have "j \<le> max j a" by simp
    also have "\<dots> \<le> fold max ids (max j a)" by (rule fold_max_ge)
    finally show ?thesis using True by simp
  next
    case False
    with Cons show ?thesis by simp
  qed
qed

lemma next_rowid_positive: "0 < next_rowid seq ids"
proof -
  have "0 \<le> max 0 seq" by simp
  also have "\<dots> \<le> fold max ids (max 0 seq)" by (rule fold_max_ge)
  finally show ?thesis by (simp add: next_rowid_def)
qed

lemma next_rowid_fresh: "next_rowid seq ids \<notin> set ids"
proof
  assume "next_rowid seq ids \<in> set ids"
  then have "next_rowid seq ids \<le> fold max ids (max 0 seq)" by (rule fold_max_ge_elem)
  then show False by (simp add: next_rowid_def)
qed

subsection \<open>Listing categories\<close>

lemma py_pop_index: "x \<in> set xs \<Longrightarrow> py_pop xs (py_index xs x) = remove1 x xs"
proof (induction xs)
  case Nil
  then show ?case by simp
next
  case (Cons y ys)
  show ?case
  proof (cases "y = x")
    case True
    then show ?thesis by (simp add: py_pop_def py_index_def)
  next
    case False
    with Cons have "py_pop ys (py_index ys x) = remove1 x ys" by simp
    with False show ?thesis by (simp add: py_pop_def py_index_def)
  qed
qed

lemma py_index_0: "x \<in> set xs \<Longrightarrow> py_index xs x = 0 \<Longrightarrow> xs = x # remove1 x xs"
  by (cases xs) (auto simp: py_index_def split: if_splits)

lemma general_first_eq:
  "general_first xs = SText ''General'' # remove1 (SText ''General'') xs"
proof (cases "SText ''General'' \<in> set xs")
  case False
  then show ?thesis by (simp add: general_first_def remove1_idem)
next
  case True
  show ?thesis
  proof (cases "py_index xs (SText ''General'') = 0")
    case True
    with \<open>SText ''General'' \<in> set xs\<close> py_index_0 [of "SText ''General''" xs]
    show ?thesis by (simp add: general_first_def)
  next
    case False
    with \<open>SText ''General'' \<in> set xs\<close> show ?thesis
      by (simp add: general_first_def py_pop_index)
  qed
qed

lemma remove1_map_SText: "remove1 (SText g) (map SText ns) = map SText (remove1 g ns)"
  by (induction ns) auto

lemma first_columns_names: "first_columns (map (\<lambda>n. [SText n]) ns) = Inr (map SText ns)"
  by (simp add: first_columns_def list_all_iff comp_def)

lemma get_task_categories_sqlite:
  "fst (get_task_categories sqlite uid m) =
     Inr (map SText (''General'' # remove1 ''General'' (order_by (\<le>) (stored_categories (dbfile m) uid))))"
proof -
  let ?ns = "order_by (\<le>) (stored_categories (dbfile m) uid)"
  have rows: "fst (fetch_all sqlite (SelectCategories uid) m) = Some (map (\<lambda>n. [SText n]) ?ns)"
    by (simp add: fetch_all_sqlite_fst reading_def stored_categories_def)
  have "(if map (\<lambda>n. [SText n]) ?ns = [] then Inr [] else first_columns (map (\<lambda>n. [SText n]) ?ns))
          = Inr (map SText ?ns)"
    by (simp add: first_columns_names)
  with rows show ?thesis
    by (simp add: get_task_categories_def split_def general_first_eq remove1_map_SText)
qed

lemma sorted_order_by_le: "sorted (order_by (\<le>) (xs :: string list))"
  by (rule sorted_wrt_order_by) (auto simp: linear)

text \<open>
  C5. For every user, \<^verbatim>\<open>get_task_categories\<close> returns a list that starts with
  \<^verbatim>\<open>General\<close>: the user's stored names are fetched in ascending order, and the result
  is \<^verbatim>\<open>General\<close> followed by those names without their \<^verbatim>\<open>General\<close> entry. So a stored
  \<^verbatim>\<open>General\<close> moves to the front, and one is put there when none is stored (also when
  the user has no categories at all).
\<close>

theorem general_is_listed_first:
  "\<exists>names. fst (get_task_categories sqlite user_id m)
              = Inr (map SText (''General'' # remove1 ''General'' names))
         \<and> sorted names
         \<and> mset names = mset (map c_name (filter (\<lambda>c. c_user c = user_id) (task_categories (dbfile m))))"
proof (intro exI conjI)
  show "fst (get_task_categories sqlite user_id m) =
        Inr (map SText (''General'' # remove1 ''General'' (order_by (\<le>) (stored_categories (dbfile m) user_id))))"
    by (rule get_task_categories_sqlite)
  show "sorted (order_by (\<le>) (stored_categories (dbfile m) user_id))"
    by (rule sorted_order_by_le)
  show "mset (order_by (\<le>) (stored_categories (dbfile m) user_id)) =
        mset (map c_name (filter (\<lambda>c. c_user c = user_id) (task_categories (dbfile m))))"
    by (simp add: mset_order_by stored_categories_def)
qed

lemma fetch_all_fails: "fetch_fails drv (dbfile m) q \<Longrightarrow> fst (fetch_all drv q m) = None"
  by (auto simp: fetch_all_def fetch_fails_def open_fails_def connect_def Let_def
           split: option.splits sum.splits)

text \<open>
  C10. \<^verbatim>\<open>get_task_categories\<close> and \<^verbatim>\<open>get_chat_history\<close> never hand the executor's
  \<^verbatim>\<open>None\<close> on: for every driver, when the fetch fails, the first returns the plain list
  \<^verbatim>\<open>['General']\<close>, which is also its answer for a user whose only stored category is
  \<^verbatim>\<open>General\<close> or who has none, and the second returns the empty list.
\<close>

theorem failed_fetch_is_not_reported:
  "(fetch_fails drv (dbfile m) (SelectCategories user_id) \<longrightarrow>
      fst (get_task_categories drv user_id m) = Inr [SText ''General''])
   \<and> (stored_categories (dbfile m') user_id = [''General''] \<or> stored_categories (dbfile m') user_id = [] \<longrightarrow>
      fst (get_task_categories sqlite user_id m') = Inr [SText ''General''])
   \<and> (fetch_fails drv (dbfile m) (SelectChatHistory user_id limit) \<longrightarrow>
      fst (get_chat_history drv user_id limit m) = [])"
proof (intro conjI impI)
  assume "fetch_fails drv (dbfile m) (SelectCategories user_id)"
  then have "fst (fetch_all drv (SelectCategories user_id) m) = None"
    by (rule fetch_all_fails)
  then show "fst (get_task_categories drv user_id m) = Inr [SText ''General'']"
    by (simp add: get_task_categories_def split_def general_first_def)
next
  assume "stored_categories (dbfile m') user_id = [''General''] \<or> stored_categories (dbfile m') user_id = []"
  then show "fst (get_task_categories sqlite user_id m') = Inr [SText ''General'']"
    by (auto simp: get_task_categories_sqlite order_by_def)
next
  assume "fetch_fails drv (dbfile m) (SelectChatHistory user_id limit)"
  then have "fst (fetch_all drv (SelectChatHistory user_id limit) m) = None"
    by (rule fetch_all_fails)
  then show "fst (get_chat_history drv user_id limit m) = []"
    by (simp add: get_chat_history_def split_def)
qed

theorem failed_fetch_is_not_reported_witness:
  "fetch_fails busy empty_db (SelectCategories 1)
   \<and> fst (get_task_categories busy 1 (init_manager ''ai_study_assistant.db'' empty_db)) = Inr [SText ''General'']
   \<and> stored_categories empty_db 1 = []
   \<and> fst (get_task_categories sqlite 1 (init_manager ''ai_study_assistant.db'' empty_db)) = Inr [SText ''General'']
   \<and> fetch_fails busy empty_db (SelectChatHistory 1 50)
   \<and> fst (get_chat_history busy 1 50 (init_manager ''ai_study_assistant.db'' empty_db)) = []"
proof -
  have f: "fetch_fails busy empty_db q" for q
    by (simp add: fetch_fails_def busy_def)
  have s: "stored_categories empty_db 1 = []"
    by (simp add: stored_categories_def empty_db_def)
  have d: "dbfile (init_manager ''ai_study_assistant.db'' empty_db) = empty_db"
    by (simp add: init_manager_def)
  show ?thesis
    using failed_fetch_is_not_reported
            [of busy "init_manager ''ai_study_assistant.db'' empty_db" 1
                "init_manager ''ai_study_assistant.db'' empty_db" 50] f s
    by (simp add: d)
qed

subsection \<open>Registration\<close>

lemma add_task_category_users:
  "users (dbfile (snd (add_task_category sqlite uid name m))) = users (dbfile m)"
  by (simp add: add_task_category_def execute_query_sqlite_dbfile writing_def Let_def)

lemma add_task_category_new:
  assumes "uid \<in> set (map u_id (users (dbfile m)))"
      and "(uid, name) \<notin> set (map (\<lambda>c. (c_user c, c_name c)) (task_categories (dbfile m)))"
  shows "map (\<lambda>c. (c_user c, c_name c)) (task_categories (dbfile (snd (add_task_category sqlite uid name m))))
           = map (\<lambda>c. (c_user c, c_name c)) (task_categories (dbfile m)) @ [(uid, name)]"
  using assms
  by (simp add: add_task_category_def execute_query_sqlite_dbfile writing_def Let_def)

lemma seed_categories:
  assumes "uid \<in> set (map u_id (users (dbfile m)))"
      and "distinct names"
      and "\<forall>n \<in> set names. (uid, n) \<notin> set (map (\<lambda>c. (c_user c, c_name c)) (task_categories (dbfile m)))"
  shows "users (dbfile (fold (\<lambda>cat_name m'. snd (add_task_category sqlite uid cat_name m')) names m))
           = users (dbfile m)
       \<and> map (\<lambda>c. (c_user c, c_name c))
            (task_categories (dbfile (fold (\<lambda>cat_name m'. snd (add_task_category sqlite uid cat_name m')) names m)))
           = map (\<lambda>c. (c_user c, c_name c)) (task_categories (dbfile m)) @ map (\<lambda>n. (uid, n)) names"
  using assms
proof (induction names arbitrary: m)
  case Nil
  then show ?case by simp
next
  case (Cons n names)
  let ?m1 = "snd (add_task_category sqlite uid n m)"
  have u1: "users (dbfile ?m1) = users (dbfile m)"
    by (rule add_task_category_users)
  have c1: "map (\<lambda>c. (c_user c, c_name c)) (task_categories (dbfile ?m1))
              = map (\<lambda>c. (c_user c, c_name c)) (task_categories (dbfile m)) @ [(uid, n)]"
    using Cons.prems by (intro add_task_category_new) auto
  have "users (dbfile (fold (\<lambda>cat_name m'. snd (add_task_category sqlite uid cat_name m')) names ?m1))
           = users (dbfile ?m1)
       \<and> map (\<lambda>c. (c_user c, c_name c))
            (task_categories (dbfile (fold (\<lambda>cat_name m'. snd (add_task_category sqlite uid cat_name m')) names ?m1)))
           = map (\<lambda>c. (c_user c, c_name c)) (task_categories (dbfile ?m1)) @ map (\<lambda>n. (uid, n)) names"
  proof (rule Cons.IH)
    show "uid \<in> set (map u_id (users (dbfile ?m1)))"
      using Cons.prems(1) u1 by simp
    show "distinct names"
      using Cons.prems(2) by simp
    show "\<forall>n' \<in> set names. (uid, n') \<notin> set (map (\<lambda>c. (c_user c, c_name c)) (task_categories (dbfile ?m1)))"
      using Cons.prems(2,3) by (auto simp: c1)
  qed
  then show ?case by (simp add: u1 c1)
qed

text \<open>What a successful insert of the user row does.\<close>

lemma insert_user_cases:
  "(username \<in> set (map u_name (users (dbfile m)))
      \<and> fst (execute_query sqlite (InsertUser username h) m) = None
      \<and> dbfile (snd (execute_query sqlite (InsertUser username h) m)) = dbfile m)
   \<or> (username \<notin> set (map u_name (users (dbfile m)))
      \<and> fst (execute_query sqlite (InsertUser username h) m)
           = Some \<lparr>lastrowid = Some (next_rowid (users_seq (dbfile m)) (map u_id (users (dbfile m)))), rowcount = 1\<rparr>
      \<and> dbfile (snd (execute_query sqlite (InsertUser username h) m))
           = (dbfile m)\<lparr>users := users (dbfile m) @
                 [\<lparr>u_id = next_rowid (users_seq (dbfile m)) (map u_id (users (dbfile m))),
                   u_name = username, u_hash = h\<rparr>],
               users_seq := next_rowid (users_seq (dbfile m)) (map u_id (users (dbfile m)))\<rparr>)"
proof (cases "username \<in> set (map u_name (users (dbfile m)))")
  case True
  then have "fst (execute_query sqlite (InsertUser username h) m) = None"
    by (simp add: execute_query_sqlite_fst)
  moreover from True have "dbfile (snd (execute_query sqlite (InsertUser username h) m)) = dbfile m"
    by (simp add: execute_query_sqlite_dbfile)
  ultimately show ?thesis using True by simp
next
  case False
  then show ?thesis
    by (simp add: execute_query_sqlite_fst execute_query_sqlite_dbfile writing_def Let_def)
qed

lemma seeding_keeps_users:
  "users (dbfile (fold (\<lambda>cat_name m'. snd (add_task_category sqlite uid cat_name m')) names m))
     = users (dbfile m)"
  by (induction names arbitrary: m) (simp_all add: add_task_category_users)

lemma add_user_fst:
  "fst (add_user H drv username password m) = fst (execute_query drv (InsertUser username (H password)) m)"
  by (simp add: add_user_def split_def Let_def split: option.splits)

lemma stored_categories_pairs:
  "stored_categories db uid
     = map snd (filter (\<lambda>p. fst p = uid) (map (\<lambda>c. (c_user c, c_name c)) (task_categories db)))"
  by (simp add: stored_categories_def filter_map comp_def)

text \<open>The effect of a successful \<^verbatim>\<open>add_user\<close> on the reference driver.\<close>

lemma add_user_success:
  assumes ok: "fst (add_user H sqlite username password m) = Some c"
  defines "uid \<equiv> next_rowid (users_seq (dbfile m)) (map u_id (users (dbfile m)))"
  defines "m1 \<equiv> snd (execute_query sqlite (InsertUser username (H password)) m)"
  shows "username \<notin> set (map u_name (users (dbfile m)))"
    and "c = \<lparr>lastrowid = Some uid, rowcount = 1\<rparr>"
    and "snd (add_user H sqlite username password m)
           = fold (\<lambda>cat_name m'. snd (add_task_category sqlite uid cat_name m')) default_categories m1"
    and "users (dbfile m1) = users (dbfile m) @ [\<lparr>u_id = uid, u_name = username, u_hash = H password\<rparr>]"
    and "task_categories (dbfile m1) = task_categories (dbfile m)"
proof -
  from ok have res: "fst (execute_query sqlite (InsertUser username (H password)) m) = Some c"
    by (simp add: add_user_fst)
  with insert_user_cases [of username m "H password"]
  show new: "username \<notin> set (map u_name (users (dbfile m)))"
    by auto
  with insert_user_cases [of username m "H password"] res
  show c: "c = \<lparr>lastrowid = Some uid, rowcount = 1\<rparr>"
    by (auto simp: uid_def)
  have "uid \<noteq> 0"
    using next_rowid_positive [of "users_seq (dbfile m)" "map u_id (users (dbfile m))"]
    by (simp add: uid_def)
  then have "truthy_lastrowid (Some c) = Some uid"
    by (simp add: truthy_lastrowid_def c)
  with res show "snd (add_user H sqlite username password m)
           = fold (\<lambda>cat_name m'. snd (add_task_category sqlite uid cat_name m')) default_categories m1"
    by (simp add: add_user_def split_def Let_def m1_def)
  from new insert_user_cases [of username m "H password"]
  show "users (dbfile m1) = users (dbfile m) @ [\<lparr>u_id = uid, u_name = username, u_hash = H password\<rparr>]"
    by (auto simp: m1_def uid_def)
  from new insert_user_cases [of username m "H password"]
  show "task_categories (dbfile m1) = task_categories (dbfile m)"
    by (auto simp: m1_def)
qed

text \<open>
  C7. After \<^verbatim>\<open>add_user(u, p)\<close> succeeded, \<^verbatim>\<open>check_user(u, p)\<close> returns the row
  \<^verbatim>\<open>(user_id, username)\<close> of that user, with the id \<^verbatim>\<open>add_user\<close> reported, and
  \<^verbatim>\<open>check_user(u, p2)\<close> returns \<^verbatim>\<open>None\<close> for every \<^verbatim>\<open>p2\<close> whose digest differs from that
  of \<^verbatim>\<open>p\<close>: both hash with the same function and the lookup matches user name and hash.
\<close>

theorem check_user_after_add_user:
  assumes "fst (add_user sha256_hex sqlite username password m) = Some c"
  shows "\<exists>uid. lastrowid c = Some uid
           \<and> fst (check_user sha256_hex sqlite username password
                    (snd (add_user sha256_hex sqlite username password m)))
               = Some [SInt uid, SText username]
           \<and> (sha256_hex password2 \<noteq> sha256_hex password \<longrightarrow>
                fst (check_user sha256_hex sqlite username password2
                      (snd (add_user sha256_hex sqlite username password m))) = None)"
proof -
  let ?uid = "next_rowid (users_seq (dbfile m)) (map u_id (users (dbfile m)))"
  let ?m' = "snd (add_user sha256_hex sqlite username password m)"
  note s = add_user_success [OF assms]
  have users: "users (dbfile ?m') = users (dbfile m) @ [\<lparr>u_id = ?uid, u_name = username, u_hash = sha256_hex password\<rparr>]"
    by (simp add: s(3) seeding_keeps_users s(4))
  have none: "filter (\<lambda>u. u_name u = username \<and> u_hash u = h) (users (dbfile m)) = []" for h
    using s(1) by (auto simp: filter_empty_conv)
  have "fst (check_user sha256_hex sqlite username password ?m') = Some [SInt ?uid, SText username]"
    by (simp add: check_user_def fetch_one_sqlite_fst reading_def users none fetchone_def)
  moreover have "fst (check_user sha256_hex sqlite username password2 ?m') = None"
    if "sha256_hex password2 \<noteq> sha256_hex password"
    using that by (simp add: check_user_def fetch_one_sqlite_fst reading_def users none fetchone_def)
  ultimately show ?thesis using s(2) by auto
qed

lemma default_categories_distinct: "distinct default_categories"
  by (simp add: default_categories_def)

text \<open>
  The integrity that the theorem on \<^verbatim>\<open>add_user\<close> asks for holds in a new database and is
  kept by every statement, hence by every repository operation on the reference driver.
\<close>

lemma empty_db_categories_owned: "categories_owned empty_db"
  by (simp add: categories_owned_def empty_db_def)

lemma run_keeps_categories_owned:
  assumes "categories_owned db" and "run db q = Inr x"
  shows "categories_owned (pending x)"
proof (cases q)
  case (InsertUser name hash)
  with assms show ?thesis
    by (auto simp: categories_owned_def list_all_iff writing_def Let_def split: if_splits)
next
  case (SelectUser name hash)
  with assms show ?thesis by (auto simp: reading_def)
next
  case (InsertOrIgnoreCategory uid name)
  with assms show ?thesis
    by (auto simp: categories_owned_def list_all_iff writing_def Let_def split: if_splits)
next
  case (SelectCategories uid)
  with assms show ?thesis by (auto simp: reading_def)
next
  case (UpdateTasksToGeneral uid name)
  with assms show ?thesis
    by (auto simp: categories_owned_def list_all_iff writing_def Let_def)
next
  case (DeleteCategory uid name)
  with assms show ?thesis
    by (auto simp: categories_owned_def list_all_iff writing_def Let_def)
next
  case (SelectTasks uid conds lim)
  with assms show ?thesis by (auto simp: reading_def)
next
  case (InsertQuizAttempt uid topic date score tot data)
  with assms show ?thesis
    by (auto simp: categories_owned_def list_all_iff writing_def Let_def split: if_splits)
next
  case (SelectQuizAttemptDetails aid)
  with assms show ?thesis by (auto simp: reading_def)
next
  case (SelectChatHistory uid n)
  with assms show ?thesis by (auto simp: reading_def)
qed

lemma execute_query_keeps_categories_owned:
  assumes "categories_owned (dbfile m)"
  shows "categories_owned (dbfile (snd (execute_query sqlite q m)))"
proof (cases "run (dbfile m) q")
  case (Inl e)
  with assms show ?thesis by (simp add: execute_query_sqlite_dbfile)
next
  case (Inr x)
  with assms run_keeps_categories_owned [of "dbfile m" q x] show ?thesis
    by (simp add: execute_query_sqlite_dbfile)
qed

text \<open>
  C6. On a database whose category rows all belong to stored users, a successful
  \<^verbatim>\<open>add_user\<close> appends one user row, holding the digest of the password in
  \<^verbatim>\<open>password_hash\<close>, under the id it reports; afterwards the categories stored for that id
  are exactly General, Academic, Personal, Project, Urgent, and the categories of every
  other user are as before.
\<close>

theorem add_user_seeds_defaults:
  assumes "categories_owned (dbfile m)"
      and "fst (add_user sha256_hex sqlite username password m) = Some c"
  shows "\<exists>uid. lastrowid c = Some uid
           \<and> users (dbfile (snd (add_user sha256_hex sqlite username password m)))
               = users (dbfile m) @ [\<lparr>u_id = uid, u_name = username, u_hash = sha256_hex password\<rparr>]
           \<and> stored_categories (dbfile (snd (add_user sha256_hex sqlite username password m))) uid
               = [''General'', ''Academic'', ''Personal'', ''Project'', ''Urgent'']
           \<and> (\<forall>other. other \<noteq> uid \<longrightarrow>
                 stored_categories (dbfile (snd (add_user sha256_hex sqlite username password m))) other
                   = stored_categories (dbfile m) other)"
proof -
  let ?uid = "next_rowid (users_seq (dbfile m)) (map u_id (users (dbfile m)))"
  let ?m1 = "snd (execute_query sqlite (InsertUser username (sha256_hex password)) m)"
  let ?m' = "snd (add_user sha256_hex sqlite username password m)"
  let ?pairs = "\<lambda>db. map (\<lambda>c. (c_user c, c_name c)) (task_categories db)"
  note s = add_user_success [OF assms(2)]
  have fresh: "?uid \<notin> set (map u_id (users (dbfile m)))"
    by (rule next_rowid_fresh)
  have unowned: "(?uid, n) \<notin> set (?pairs (dbfile m))" for n
    using assms(1) fresh by (auto simp: categories_owned_def list_all_iff)
  have seeded: "users (dbfile ?m') = users (dbfile ?m1)
              \<and> ?pairs (dbfile ?m') = ?pairs (dbfile ?m1) @ map (\<lambda>n. (?uid, n)) default_categories"
    unfolding s(3)
  proof (rule seed_categories)
    show "?uid \<in> set (map u_id (users (dbfile ?m1)))"
      by (simp add: s(4))
    show "distinct default_categories"
      by (rule default_categories_distinct)
    show "\<forall>n \<in> set default_categories. (?uid, n) \<notin> set (?pairs (dbfile ?m1))"
      using unowned by (simp add: s(5))
  qed
  have pairs: "?pairs (dbfile ?m') = ?pairs (dbfile m) @ map (\<lambda>n. (?uid, n)) default_categories"
    using seeded by (simp add: s(5))
  have "c_user r \<noteq> ?uid" if "r \<in> set (task_categories (dbfile m))" for r
  proof
    assume "c_user r = ?uid"
    moreover have "c_user r \<in> set (map u_id (users (dbfile m)))"
      using that assms(1) by (simp add: categories_owned_def list_all_iff)
    ultimately show False using fresh by simp
  qed
  then have none: "filter (\<lambda>r. c_user r = ?uid) (task_categories (dbfile m)) = []"
    by (auto simp: filter_empty_conv)
  have mine: "stored_categories (dbfile ?m') ?uid = default_categories"
    unfolding stored_categories_pairs pairs
    by (simp add: none filter_map comp_def)
  have others: "stored_categories (dbfile ?m') other = stored_categories (dbfile m) other"
    if "other \<noteq> ?uid" for other
    unfolding stored_categories_pairs pairs
    using that by (simp add: filter_map comp_def)
  have "users (dbfile ?m') = users (dbfile m) @ [\<lparr>u_id = ?uid, u_name = username, u_hash = sha256_hex password\<rparr>]"
    using seeded by (simp add: s(4))
  with mine others s(2) show ?thesis
    by (auto simp: default_categories_def)
qed

lemma alice_registered:
  "fst (add_user toy_digest sqlite ''alice'' ''secret1'' fresh_manager)
     = Some \<lparr>lastrowid = Some 1, rowcount = 1\<rparr>"
  by (simp add: add_user_fst execute_query_sqlite_fst fresh_manager_def init_manager_def
        empty_db_def writing_def next_rowid_def)

theorem check_user_after_add_user_witness:
  "fst (add_user toy_digest sqlite ''alice'' ''secret1'' fresh_manager)
     = Some \<lparr>lastrowid = Some 1, rowcount = 1\<rparr>
   \<and> fst (check_user toy_digest sqlite ''alice'' ''secret1'' alice_manager)
       = Some [SInt 1, SText ''alice'']
   \<and> toy_digest ''wrong'' \<noteq> toy_digest ''secret1''
   \<and> fst (check_user toy_digest sqlite ''alice'' ''wrong'' alice_manager) = None"
proof -
  have d: "toy_digest ''wrong'' \<noteq> toy_digest ''secret1''"
    by (simp add: toy_digest_def)
  show ?thesis
    using check_user_after_add_user [OF alice_registered, of "''wrong''"] alice_registered d
    by (auto simp: alice_manager_def)
qed

theorem add_user_seeds_defaults_witness:
  "categories_owned (dbfile fresh_manager)
   \<and> fst (add_user toy_digest sqlite ''alice'' ''secret1'' fresh_manager)
       = Some \<lparr>lastrowid = Some 1, rowcount = 1\<rparr>
   \<and> users (dbfile alice_manager) = [\<lparr>u_id = 1, u_name = ''alice'', u_hash = ''1terces''\<rparr>]
   \<and> stored_categories (dbfile alice_manager) 1
       = [''General'', ''Academic'', ''Personal'', ''Project'', ''Urgent'']
   \<and> stored_categories (dbfile alice_manager) 2 = []"
proof -
  have o: "categories_owned (dbfile fresh_manager)"
    by (simp add: categories_owned_def fresh_manager_def init_manager_def empty_db_def)
  have e: "users (dbfile fresh_manager) = []" "stored_categories (dbfile fresh_manager) 2 = []"
    by (simp_all add: stored_categories_def fresh_manager_def init_manager_def empty_db_def)
  show ?thesis
    using add_user_seeds_defaults [OF o alice_registered] alice_registered o e
    by (auto simp: alice_manager_def toy_digest_def)
qed

subsection \<open>Quiz attempts\<close>

lemma filter_fresh: "x \<notin> set (map f xs) \<Longrightarrow> filter (\<lambda>r. f r = x) xs = []"
  by (induction xs) auto

text \<open>
  C8. When \<^verbatim>\<open>add_quiz_attempt\<close> succeeds, its cursor reports a row id \<open>A\<close>, and
  \<^verbatim>\<open>get_quiz_attempt_details(A)\<close> on the resulting state returns the topic together with
  the string that was submitted as \<^verbatim>\<open>questions_data_json\<close>, character by character. The
  repository stores and returns the serialized snapshot as text, so whatever the caller
  serialized (question text, options, correct index, explanation, answer index or
  \<^verbatim>\<open>null\<close>) comes back unchanged.
\<close>

theorem quiz_attempt_round_trip:
  assumes "fst (add_quiz_attempt sqlite user_id topic quiz_date score total_questions snapshot m) = Some c"
  shows "\<exists>A. lastrowid c = Some A
           \<and> fst (get_quiz_attempt_details sqlite A
                    (snd (add_quiz_attempt sqlite user_id topic quiz_date score total_questions snapshot m)))
               = Some [SText topic, SText snapshot]"
proof -
  let ?A = "next_rowid (quiz_attempts_seq (dbfile m)) (map q_id (quiz_attempts (dbfile m)))"
  let ?m' = "snd (add_quiz_attempt sqlite user_id topic quiz_date score total_questions snapshot m)"
  let ?new = "\<lparr>q_id = ?A, q_user = user_id, q_topic = topic, q_date = quiz_date,
               q_score = score, q_total = total_questions, q_data = Some snapshot\<rparr>"
  from assms have known: "user_id \<in> set (map u_id (users (dbfile m)))"
    by (auto simp: add_quiz_attempt_def execute_query_sqlite_fst split: if_splits)
  with assms have c: "c = \<lparr>lastrowid = Some ?A, rowcount = 1\<rparr>"
    by (simp add: add_quiz_attempt_def execute_query_sqlite_fst writing_def Let_def)
  from known have stored: "quiz_attempts (dbfile ?m') = quiz_attempts (dbfile m) @ [?new]"
    by (simp add: add_quiz_attempt_def execute_query_sqlite_dbfile writing_def Let_def)
  have "?A \<notin> set (map q_id (quiz_attempts (dbfile m)))"
    by (rule next_rowid_fresh)
  then have older: "filter (\<lambda>q. q_id q = ?A) (quiz_attempts (dbfile m)) = []"
    by (rule filter_fresh)
  have "fst (get_quiz_attempt_details sqlite ?A ?m') = Some [SText topic, SText snapshot]"
    by (simp add: get_quiz_attempt_details_def fetch_one_sqlite_fst reading_def stored older
          fetchone_def text_or_null_def)
  with c show ?thesis by simp
qed

lemma alice_quiz_recorded:
  "fst (add_quiz_attempt sqlite 1 ''Algebra'' ''2024-01-10 09:30:00'' 1 2 ''[{\"user_answer_index\": null}]''
          alice_manager)
     = Some \<lparr>lastrowid = Some 1, rowcount = 1\<rparr>"
proof -
  have u: "users (dbfile alice_manager) = [\<lparr>u_id = 1, u_name = ''alice'', u_hash = ''1terces''\<rparr>]"
    using add_user_success(3,4) [OF alice_registered]
    by (simp add: alice_manager_def seeding_keeps_users toy_digest_def fresh_manager_def
          init_manager_def empty_db_def next_rowid_def)
  have q: "quiz_attempts (dbfile alice_manager) = [] \<and> quiz_attempts_seq (dbfile alice_manager) = 0"
    by (simp add: alice_manager_def add_user_def execute_query_sqlite_fst execute_query_sqlite_dbfile
          add_task_category_def default_categories_def truthy_lastrowid_def split_def
          fresh_manager_def init_manager_def empty_db_def writing_def next_rowid_def Let_def)
  show ?thesis
    by (simp add: add_quiz_attempt_def execute_query_sqlite_fst u q writing_def next_rowid_def)
qed

theorem quiz_attempt_round_trip_witness:
  "fst (add_quiz_attempt sqlite 1 ''Algebra'' ''2024-01-10 09:30:00'' 1 2 ''[{\"user_answer_index\": null}]''
          alice_manager)
     = Some \<lparr>lastrowid = Some 1, rowcount = 1\<rparr>
   \<and> fst (get_quiz_attempt_details sqlite 1
            (snd (add_quiz_attempt sqlite 1 ''Algebra'' ''2024-01-10 09:30:00'' 1 2
                    ''[{\"user_answer_index\": null}]'' alice_manager)))
       = Some [SText ''Algebra'', SText ''[{\"user_answer_index\": null}]'']"
  using quiz_attempt_round_trip [OF alice_quiz_recorded] alice_quiz_recorded
  by simp

subsection \<open>Deleting a category\<close>

lemma lower_General: "lower ''General'' = ''general''"
  by (simp add: lower_def lower_char_def)

lemma general_is_not_lowered: "lower name \<noteq> ''general'' \<Longrightarrow> name \<noteq> ''General''"
  using lower_General by metis

lemma delete_task_category_rejected:
  assumes "lower name = ''general''"
  shows "falsy (fst (delete_task_category drv user_id name m))"
    and "snd (delete_task_category drv user_id name m) = m"
  using assms by (simp_all add: delete_task_category_def falsy_def)

lemma delete_task_category_sqlite:
  assumes "lower name \<noteq> ''general''"
  shows "tasks (dbfile (snd (delete_task_category sqlite uid name m)))
           = map (\<lambda>t. if t_user t = uid \<and> t_category t = Some name
                        then t\<lparr>t_category := Some ''General''\<rparr> else t) (tasks (dbfile m))"
    and "task_categories (dbfile (snd (delete_task_category sqlite uid name m)))
           = filter (\<lambda>c. \<not> (c_user c = uid \<and> c_name c = name)) (task_categories (dbfile m))"
proof -
  let ?m1 = "snd (execute_query sqlite (UpdateTasksToGeneral uid name) m)"
  let ?m2 = "snd (execute_query sqlite (DeleteCategory uid name) ?m1)"
  have m': "snd (delete_task_category sqlite uid name m) = ?m2"
    using assms by (simp add: delete_task_category_def split_def Let_def)
  have d1: "dbfile ?m1 = (dbfile m)\<lparr>tasks := map (\<lambda>t. if t_user t = uid \<and> t_category t = Some name
                        then t\<lparr>t_category := Some ''General''\<rparr> else t) (tasks (dbfile m))\<rparr>"
    by (simp add: execute_query_sqlite_dbfile writing_def Let_def)
  have d2: "dbfile ?m2 = (dbfile ?m1)\<lparr>task_categories :=
               filter (\<lambda>c. \<not> (c_user c = uid \<and> c_name c = name)) (task_categories (dbfile ?m1))\<rparr>"
    by (simp only: execute_query_sqlite_dbfile run.simps Let_def sum.case writing_def executed.simps)
  show "tasks (dbfile (snd (delete_task_category sqlite uid name m)))
           = map (\<lambda>t. if t_user t = uid \<and> t_category t = Some name
                        then t\<lparr>t_category := Some ''General''\<rparr> else t) (tasks (dbfile m))"
    by (simp add: m' d2 d1)
  show "task_categories (dbfile (snd (delete_task_category sqlite uid name m)))
           = filter (\<lambda>c. \<not> (c_user c = uid \<and> c_name c = name)) (task_categories (dbfile m))"
    by (simp add: m' d2 d1)
qed

lemma retargeted:
  assumes "name \<noteq> ''General''"
  shows "\<forall>t \<in> set (map (\<lambda>t. if t_user t = user_id \<and> t_category t = Some name
                             then t\<lparr>t_category := Some ''General''\<rparr> else t) ts).
           t_user t = user_id \<longrightarrow> t_category t \<noteq> Some name"
proof (intro ballI impI)
  fix t
  assume "t \<in> set (map (\<lambda>t. if t_user t = user_id \<and> t_category t = Some name
                             then t\<lparr>t_category := Some ''General''\<rparr> else t) ts)"
     and u: "t_user t = user_id"
  then obtain s where s: "s \<in> set ts"
     and t: "t = (if t_user s = user_id \<and> t_category s = Some name
                  then s\<lparr>t_category := Some ''General''\<rparr> else s)"
    by (auto simp only: set_map image_iff)
  show "t_category t \<noteq> Some name"
  proof (cases "t_user s = user_id \<and> t_category s = Some name")
    case True
    with t have "t_category t = Some ''General''" by simp
    with assms show ?thesis by (simp only: option.inject not_sym)
  next
    case False
    with t have "t = s" by simp
    with False u show ?thesis by simp
  qed
qed

lemma unlisted:
  assumes "name \<noteq> ''General''" and "name \<notin> set ns"
  shows "SText name \<notin> set (map SText (''General'' # remove1 ''General'' (order_by (\<le>) ns)))"
proof -
  have "name \<notin> set (order_by (\<le>) ns)"
    using assms(2) by (simp add: set_order_by)
  then have "name \<notin> set (remove1 ''General'' (order_by (\<le>) ns))"
    by (metis notin_set_remove1)
  then have "name \<notin> set (''General'' # remove1 ''General'' (order_by (\<le>) ns))"
    using assms(1) by simp
  moreover have "SText x \<in> set (map SText xs) \<Longrightarrow> x \<in> set xs" for x xs
    by (induction xs) auto
  ultimately show ?thesis by blast
qed

text \<open>
  C3. \<^verbatim>\<open>delete_task_category(user, name)\<close> on the reference driver. If \<^verbatim>\<open>name.lower()\<close>
  is \<^verbatim>\<open>general\<close>, the result is falsy and the manager with its database is unchanged.
  Otherwise the tasks of that user whose category is \<^verbatim>\<open>name\<close> get category
  \<^verbatim>\<open>General\<close> (all other tasks stay as they are), the user's category row \<^verbatim>\<open>name\<close> is
  deleted (all other rows stay); so afterwards no task of the user has category
  \<^verbatim>\<open>name\<close>, and \<^verbatim>\<open>name\<close> is not in \<^verbatim>\<open>get_task_categories(user)\<close>.
\<close>

theorem delete_task_category_retargets:
  "(lower name = ''general'' \<longrightarrow>
      falsy (fst (delete_task_category sqlite user_id name m))
      \<and> snd (delete_task_category sqlite user_id name m) = m)
   \<and> (lower name \<noteq> ''general'' \<longrightarrow>
      tasks (dbfile (snd (delete_task_category sqlite user_id name m)))
        = map (\<lambda>t. if t_user t = user_id \<and> t_category t = Some name
                     then t\<lparr>t_category := Some ''General''\<rparr> else t) (tasks (dbfile m))
      \<and> task_categories (dbfile (snd (delete_task_category sqlite user_id name m)))
        = filter (\<lambda>c. \<not> (c_user c = user_id \<and> c_name c = name)) (task_categories (dbfile m))
      \<and> (\<forall>t \<in> set (tasks (dbfile (snd (delete_task_category sqlite user_id name m)))).
            t_user t = user_id \<longrightarrow> t_category t \<noteq> Some name)
      \<and> (\<exists>cats. fst (get_task_categories sqlite user_id
                         (snd (delete_task_category sqlite user_id name m))) = Inr cats
                 \<and> SText name \<notin> set cats))"
proof (intro conjI impI)
  assume general: "lower name = ''general''"
  then show "falsy (fst (delete_task_category sqlite user_id name m))"
    by (rule delete_task_category_rejected)
  from general show "snd (delete_task_category sqlite user_id name m) = m"
    by (rule delete_task_category_rejected)
next
  assume other: "lower name \<noteq> ''general''"
  let ?m' = "snd (delete_task_category sqlite user_id name m)"
  note d = delete_task_category_sqlite [OF other, of user_id m]
  from other have ng: "name \<noteq> ''General''"
    by (rule general_is_not_lowered)
  show "tasks (dbfile ?m')
        = map (\<lambda>t. if t_user t = user_id \<and> t_category t = Some name
                     then t\<lparr>t_category := Some ''General''\<rparr> else t) (tasks (dbfile m))"
    by (rule d(1))
  show "task_categories (dbfile ?m')
        = filter (\<lambda>c. \<not> (c_user c = user_id \<and> c_name c = name)) (task_categories (dbfile m))"
    by (rule d(2))
  show "\<forall>t \<in> set (tasks (dbfile ?m')). t_user t = user_id \<longrightarrow> t_category t \<noteq> Some name"
    unfolding d(1) using ng by (rule retargeted)
  have "name \<notin> set (stored_categories (dbfile ?m') user_id)"
    unfolding stored_categories_def d(2) by auto
  with ng have "SText name \<notin> set (map SText (''General'' #
               remove1 ''General'' (order_by (\<le>) (stored_categories (dbfile ?m') user_id))))"
    by (rule unlisted)
  with get_task_categories_sqlite [of user_id ?m']
  show "\<exists>cats. fst (get_task_categories sqlite user_id ?m') = Inr cats \<and> SText name \<notin> set cats"
    by (intro exI conjI)
qed

theorem delete_task_category_retargets_witness:
  "lower ''GENERAL'' = ''general''
   \<and> falsy (fst (delete_task_category sqlite 1 ''GENERAL'' study_manager))
   \<and> snd (delete_task_category sqlite 1 ''GENERAL'' study_manager) = study_manager
   \<and> lower ''Academic'' \<noteq> ''general''
   \<and> tasks (dbfile (snd (delete_task_category sqlite 1 ''Academic'' study_manager)))
       = [read_ch3\<lparr>t_category := Some ''General''\<rparr>, hand_in, tidy_desk]
   \<and> (\<exists>cats. fst (get_task_categories sqlite 1
                      (snd (delete_task_category sqlite 1 ''Academic'' study_manager))) = Inr cats
              \<and> SText ''Academic'' \<notin> set cats)"
proof -
  have g: "lower ''GENERAL'' = ''general''"
    by (simp add: lower_def lower_char_def)
  have a: "lower ''Academic'' \<noteq> ''general''"
    by (simp add: lower_def lower_char_def)
  have t: "tasks (dbfile study_manager) = [read_ch3, hand_in, tidy_desk]"
    by (simp add: study_manager_def init_manager_def study_db_def)
  have r: "map (\<lambda>t. if t_user t = 1 \<and> t_category t = Some ''Academic''
                     then t\<lparr>t_category := Some ''General''\<rparr> else t) [read_ch3, hand_in, tidy_desk]
           = [read_ch3\<lparr>t_category := Some ''General''\<rparr>, hand_in, tidy_desk]"
    by (simp add: read_ch3_def hand_in_def tidy_desk_def)
  note rejected =
    delete_task_category_retargets [of "''GENERAL''" 1 study_manager, THEN conjunct1, THEN mp, OF g]
  note deleted =
    delete_task_category_retargets [of "''Academic''" 1 study_manager, THEN conjunct2, THEN mp, OF a]
  from deleted [THEN conjunct1]
  have moved: "tasks (dbfile (snd (delete_task_category sqlite 1 ''Academic'' study_manager)))
       = [read_ch3\<lparr>t_category := Some ''General''\<rparr>, hand_in, tidy_desk]"
    by (simp only: t r)
  note unlisted_now = deleted [THEN conjunct2, THEN conjunct2, THEN conjunct2]
  from g rejected [THEN conjunct1] rejected [THEN conjunct2] a moved unlisted_now show ?thesis
    by (intro conjI) assumption+
qed

subsection \<open>Dates as text\<close>

lemma of_char_digit: "a < 10 \<Longrightarrow> (of_char (digit a) :: nat) = 48 + a"
  by (simp add: digit_def)

lemma digit_less: "a < 10 \<Longrightarrow> b < 10 \<Longrightarrow> digit a < digit b \<longleftrightarrow> a < b"
  by (simp add: less_char_def of_char_digit)

lemma digit_eq:
  assumes "a < 10" and "b < 10"
  shows "digit a = digit b \<longleftrightarrow> a = b"
proof
  assume "digit a = digit b"
  then have "(of_char (digit a) :: nat) = of_char (digit b)" by simp
  with assms show "a = b" by (simp add: of_char_digit)
next
  assume "a = b"
  then show "digit a = digit b" by simp
qed

lemma two_digit_order:
  fixes n n' :: nat
  shows "(n div 10 < n' div 10 \<or> n div 10 = n' div 10 \<and> n mod 10 < n' mod 10) \<longleftrightarrow> n < n'"
proof -
  define a r a' r' where "a = n div 10" and "r = n mod 10" and "a' = n' div 10" and "r' = n' mod 10"
  have "n = 10 * a + r" "r < 10" "n' = 10 * a' + r'" "r' < 10"
    by (simp_all add: a_def r_def a'_def r'_def)
  then have "(a < a' \<or> a = a' \<and> r < r') \<longleftrightarrow> n < n'"
    by arith
  then show ?thesis
    by (simp only: a_def r_def a'_def r'_def)
qed

lemma two_digit_same:
  fixes n n' :: nat
  shows "(n div 10 = n' div 10 \<and> n mod 10 = n' mod 10) \<longleftrightarrow> n = n'"
proof
  assume "n div 10 = n' div 10 \<and> n mod 10 = n' mod 10"
  then show "n = n'"
    by (metis div_mult_mod_eq)
next
  assume "n = n'"
  then show "n div 10 = n' div 10 \<and> n mod 10 = n' mod 10"
    by simp
qed

lemma two_digits_less:
  assumes "n < 100" and "n' < 100"
  shows "two_digits n < two_digits n' \<longleftrightarrow> n < n'"
proof -
  have "n div 10 < 10" "n' div 10 < 10" "n mod 10 < 10" "n' mod 10 < 10"
    using assms by simp_all
  then have "two_digits n < two_digits n' \<longleftrightarrow>
        n div 10 < n' div 10 \<or> n div 10 = n' div 10 \<and> n mod 10 < n' mod 10"
    by (simp add: two_digits_def digit_less digit_eq)
  then show ?thesis
    by (simp only: two_digit_order)
qed

lemma two_digits_eq:
  assumes "n < 100" and "n' < 100"
  shows "two_digits n = two_digits n' \<longleftrightarrow> n = n'"
proof -
  have "n div 10 < 10" "n' div 10 < 10" "n mod 10 < 10" "n' mod 10 < 10"
    using assms by simp_all
  then have "two_digits n = two_digits n' \<longleftrightarrow> n div 10 = n' div 10 \<and> n mod 10 = n' mod 10"
    by (simp add: two_digits_def digit_eq)
  then show ?thesis
    by (simp only: two_digit_same)
qed

lemma length_two_digits: "length (two_digits n) = 2"
  by (simp add: two_digits_def)

lemma less_append_same_length:
  fixes a a' x y :: string
  assumes "length a = length a'"
  shows "a @ x < a' @ y \<longleftrightarrow> a < a' \<or> a = a' \<and> x < y"
  using assms by (induction a a' rule: list_induct2) auto

lemma century_order:
  fixes n n' :: nat
  shows "(n div 100 < n' div 100 \<or> n div 100 = n' div 100 \<and> (n mod 100 < n' mod 100 \<or> n mod 100 = n' mod 100 \<and> R))
           \<longleftrightarrow> n < n' \<or> n = n' \<and> R"
proof -
  define a r a' r' where "a = n div 100" and "r = n mod 100" and "a' = n' div 100" and "r' = n' mod 100"
  have "n = 100 * a + r" "r < 100" "n' = 100 * a' + r'" "r' < 100"
    by (simp_all add: a_def r_def a'_def r'_def)
  then have less: "(a < a' \<or> a = a' \<and> r < r') \<longleftrightarrow> n < n'"
    by arith
  have same: "(a = a' \<and> r = r') \<longleftrightarrow> n = n'"
    unfolding a_def r_def a'_def r'_def by (metis div_mult_mod_eq)
  have "(a < a' \<or> a = a' \<and> (r < r' \<or> r = r' \<and> R))
          \<longleftrightarrow> (a < a' \<or> a = a' \<and> r < r') \<or> (a = a' \<and> r = r') \<and> R"
    by blast
  then show ?thesis
    unfolding less same by (simp only: a_def r_def a'_def r'_def)
qed

text \<open>The texts of two dates compare as the dates do.\<close>

lemma iso_date_less:
  assumes "y < 10000" "y' < 10000" "m < 100" "m' < 100" "d < 100" "d' < 100"
  shows "iso_date y m d < iso_date y' m' d'
           \<longleftrightarrow> y < y' \<or> y = y' \<and> (m < m' \<or> m = m' \<and> d < d')"
proof -
  have c: "y div 100 < 100" "y' div 100 < 100" "y mod 100 < 100" "y' mod 100 < 100"
    using assms by simp_all
  have len: "length (two_digits a) = length (two_digits b)" for a b
    by (simp only: length_two_digits)
  have dash: "''-'' @ u < ''-'' @ v \<longleftrightarrow> u < v" for u v :: string
    by simp
  have last: "two_digits d < two_digits d' \<longleftrightarrow> d < d'"
    using assms by (simp only: two_digits_less)
  have "iso_date y m d < iso_date y' m' d' \<longleftrightarrow>
          two_digits (y div 100) < two_digits (y' div 100)
        \<or> two_digits (y div 100) = two_digits (y' div 100)
          \<and> (two_digits (y mod 100) < two_digits (y' mod 100)
             \<or> two_digits (y mod 100) = two_digits (y' mod 100)
               \<and> (two_digits m < two_digits m'
                  \<or> two_digits m = two_digits m' \<and> two_digits d < two_digits d'))"
    unfolding iso_date_def
    by (simp only: less_append_same_length [OF len] dash)
  also have "\<dots> \<longleftrightarrow>
          y div 100 < y' div 100
        \<or> y div 100 = y' div 100
          \<and> (y mod 100 < y' mod 100
             \<or> y mod 100 = y' mod 100 \<and> (m < m' \<or> m = m' \<and> d < d'))"
    using assms c by (simp only: two_digits_less two_digits_eq)
  also have "\<dots> \<longleftrightarrow> y < y' \<or> y = y' \<and> (m < m' \<or> m = m' \<and> d < d')"
    by (rule century_order)
  finally show ?thesis .
qed

subsection \<open>Listing tasks\<close>

lemma select_tasks_sound:
  assumes "t \<in> set (select_tasks db uid conds lim)"
  shows "t \<in> set (tasks db)" and "t_user t = uid" and "list_all (holds t) conds"
proof -
  let ?hits = "filter (\<lambda>t. t_user t = uid \<and> list_all (holds t) conds) (tasks db)"
  have "set (select_tasks db uid conds lim) \<subseteq> set (order_by task_le ?hits)"
    using set_sql_limit [of _ "order_by task_le ?hits"]
    by (cases lim) (simp_all add: select_tasks_def)
  with assms have "t \<in> set ?hits"
    by (auto simp: set_order_by)
  then show "t \<in> set (tasks db)" and "t_user t = uid" and "list_all (holds t) conds"
    by simp_all
qed

lemma get_tasks_overdue:
  "\<exists>conds lim. get_tasks drv clk uid show_completed category_filter (Some ''overdue'') limit m
      = fetch_all drv (SelectTasks uid (conds @ [DueBefore (today_str clk), CompletedIs0]) lim) m"
proof -
  let ?q1 = "if \<not> show_completed then [CompletedIs0] else []"
  let ?q2 = "case category_filter of
               None \<Rightarrow> ?q1
             | Some c \<Rightarrow> if c \<noteq> [] \<and> c \<noteq> ''All Categories'' then ?q1 @ [CategoryIs c] else ?q1"
  let ?lim = "case limit of None \<Rightarrow> None | Some n \<Rightarrow> if n \<noteq> 0 then Some n else None"
  have "get_tasks drv clk uid show_completed category_filter (Some ''overdue'') limit m
      = fetch_all drv (SelectTasks uid (?q2 @ [DueBefore (today_str clk), CompletedIs0]) ?lim) m"
    by (simp add: get_tasks_def Let_def)
  then show ?thesis by (intro exI)
qed

lemma task_tuple_columns:
  "task_tuple t ! 3 = text_or_null (t_due_date t)" "task_tuple t ! 4 = SInt (t_completed t)"
  by (simp_all add: task_tuple_def)

text \<open>
  What the query of \<^verbatim>\<open>get_tasks\<close> with \<^verbatim>\<open>due_filter='overdue'\<close> does guarantee, for every
  user, stored task set, clock and choice of \<^verbatim>\<open>show_completed\<close>, \<^verbatim>\<open>category_filter\<close> and
  \<^verbatim>\<open>limit\<close>: each returned row is a stored task of that user with \<^verbatim>\<open>completed = 0\<close> whose
  due date is not \<^verbatim>\<open>NULL\<close> and is, as a text, strictly below today's text. Only where both
  texts are zero-padded dates does that make the due date the earlier date.
\<close>

lemma overdue_rows_compare_as_text:
  "\<exists>rows. fst (get_tasks sqlite clk user_id show_completed category_filter (Some ''overdue'') limit m)
             = Some rows
        \<and> (\<forall>r \<in> set rows.
              \<exists>t \<in> set (tasks (dbfile m)).
                r = task_tuple t \<and> t_user t = user_id \<and> t_completed t = 0
                \<and> (\<exists>d. t_due_date t = Some d \<and> d < today_str clk))
        \<and> (\<forall>r \<in> set rows. r ! 4 = SInt 0 \<and> (\<exists>d. r ! 3 = SText d \<and> d < today_str clk))
        \<and> (\<forall>r \<in> set rows. \<forall>Y M D y m d.
              Y < 10000 \<and> M < 100 \<and> D < 100 \<and> y < 10000 \<and> m < 100 \<and> d < 100
              \<and> today_str clk = iso_date Y M D \<and> r ! 3 = SText (iso_date y m d)
              \<longrightarrow> y < Y \<or> y = Y \<and> (m < M \<or> m = M \<and> d < D))"
proof -
  obtain conds lim where q:
    "get_tasks sqlite clk user_id show_completed category_filter (Some ''overdue'') limit m
      = fetch_all sqlite (SelectTasks user_id (conds @ [DueBefore (today_str clk), CompletedIs0]) lim) m"
    using get_tasks_overdue by blast
  let ?conds = "conds @ [DueBefore (today_str clk), CompletedIs0]"
  let ?ts = "select_tasks (dbfile m) user_id ?conds lim"
  have rows: "fst (get_tasks sqlite clk user_id show_completed category_filter (Some ''overdue'') limit m)
                = Some (map task_tuple ?ts)"
    by (simp add: q fetch_all_sqlite_fst reading_def)
  have sound: "t \<in> set (tasks (dbfile m)) \<and> t_user t = user_id \<and> t_completed t = 0
               \<and> (\<exists>d. t_due_date t = Some d \<and> d < today_str clk)"
    if "t \<in> set ?ts" for t
  proof -
    note s = select_tasks_sound [OF that]
    from s(3) have "holds t (DueBefore (today_str clk))" and "holds t CompletedIs0"
      by simp_all
    then have "t_completed t = 0" and "\<exists>d. t_due_date t = Some d \<and> d < today_str clk"
      by (simp_all split: option.splits)
    with s(1,2) show ?thesis by simp
  qed
  have first: "\<forall>r \<in> set (map task_tuple ?ts).
              \<exists>t \<in> set (tasks (dbfile m)).
                r = task_tuple t \<and> t_user t = user_id \<and> t_completed t = 0
                \<and> (\<exists>d. t_due_date t = Some d \<and> d < today_str clk)"
    using sound by auto
  have second: "\<forall>r \<in> set (map task_tuple ?ts).
              r ! 4 = SInt 0 \<and> (\<exists>d. r ! 3 = SText d \<and> d < today_str clk)"
  proof
    fix r assume "r \<in> set (map task_tuple ?ts)"
    then obtain t where t: "t \<in> set ?ts" and r: "r = task_tuple t" by auto
    from sound [OF t] obtain d where "t_completed t = 0" and "t_due_date t = Some d" and "d < today_str clk"
      by blast
    then show "r ! 4 = SInt 0 \<and> (\<exists>d. r ! 3 = SText d \<and> d < today_str clk)"
      by (simp add: r task_tuple_columns text_or_null_def)
  qed
  have third: "\<forall>r \<in> set (map task_tuple ?ts). \<forall>Y M D y m d.
              Y < 10000 \<and> M < 100 \<and> D < 100 \<and> y < 10000 \<and> m < 100 \<and> d < 100
              \<and> today_str clk = iso_date Y M D \<and> r ! 3 = SText (iso_date y m d)
              \<longrightarrow> y < Y \<or> y = Y \<and> (m < M \<or> m = M \<and> d < D)"
  proof (intro ballI allI impI)
    fix r Y M D y m d
    assume r: "r \<in> set (map task_tuple ?ts)"
      and dates: "Y < 10000 \<and> M < 100 \<and> D < 100 \<and> y < 10000 \<and> m < 100 \<and> d < 100
              \<and> today_str clk = iso_date Y M D \<and> r ! 3 = SText (iso_date y m d)"
    from second r obtain due where "r ! 3 = SText due" and "due < today_str clk"
      by blast
    with dates have "iso_date y m d < iso_date Y M D"
      by simp
    with dates show "y < Y \<or> y = Y \<and> (m < M \<or> m = M \<and> d < D)"
      by (simp only: iso_date_less)
  qed
  from rows first second third show ?thesis by blast
qed

lemma study_tasks: "tasks (dbfile study_manager) = [read_ch3, hand_in, tidy_desk]"
  by (simp add: study_manager_def init_manager_def study_db_def)

lemma overdue_on_jan12:
  "fst (get_tasks sqlite jan12 1 True None (Some ''overdue'') None study_manager)
     = Some [task_tuple read_ch3]"
  by (simp add: get_tasks_def fetch_all_sqlite_fst reading_def select_tasks_def study_tasks
        order_by_def jan12_def read_ch3_def hand_in_def tidy_desk_def)

text \<open>
  C4. The specification has it that, for every user and stored task set, \<^verbatim>\<open>get_tasks\<close>
  with \<^verbatim>\<open>due_filter='overdue'\<close> returns no task whose due date is missing, today or later.
  The code departs from it on due dates that are not zero-padded \<^verbatim>\<open>YYYY-MM-DD\<close> texts, because
  it compares texts: on 5 January 2024 it returns Alice's task due on 9 January (stored as
  \<^verbatim>\<open>2024-01- 9\<close>, and a blank is below \<^verbatim>\<open>0\<close>) and her task whose due date is the empty
  string, which the \<^verbatim>\<open>ORDER BY\<close> of the same query ranks with the tasks that have no due
  date.
\<close>

theorem overdue_returns_later_and_undated_tasks:
  "fst (get_tasks sqlite jan5 1 False None (Some ''overdue'') None loose_dates_manager)
     = Some [task_tuple see_dentist, task_tuple someday]
   \<and> today_str jan5 = ''2024-01-05''
   \<and> task_tuple see_dentist ! 3 = SText ''2024-01- 9''
   \<and> task_tuple someday ! 3 = SText []
   \<and> no_due see_dentist = 0
   \<and> no_due someday = 1"
proof -
  have stored: "tasks (dbfile loose_dates_manager) = [see_dentist, someday]"
    by (simp add: loose_dates_manager_def init_manager_def loose_dates_db_def)
  have "fst (get_tasks sqlite jan5 1 False None (Some ''overdue'') None loose_dates_manager)
          = Some [task_tuple see_dentist, task_tuple someday]"
    by (simp add: get_tasks_def fetch_all_sqlite_fst reading_def select_tasks_def stored
          order_by_def task_le_def no_due_def jan5_def see_dentist_def someday_def)
  then show ?thesis
    by (simp add: jan5_def task_tuple_def text_or_null_def no_due_def see_dentist_def someday_def)
qed


subsection \<open>Chat history\<close>

lemma newest_first_sorted:
  "sorted_wrt (\<lambda>a b. h_timestamp b \<le> h_timestamp a) (order_by (\<lambda>a b. h_timestamp b \<le> h_timestamp a) hs)"
  by (rule sorted_wrt_order_by) (auto simp: linear)

lemma get_chat_history_sqlite:
  "fst (get_chat_history sqlite uid n m) = map chat_tuple (rev (select_chat (dbfile m) uid n))"
  by (simp add: get_chat_history_def split_def fetch_all_sqlite_fst reading_def rev_map)

text \<open>The oldest-first reading of the first \<open>n\<close> rows of a newest-first list.\<close>

lemma newest_rows:
  fixes s :: "chat_row list"
  assumes "sorted_wrt (\<lambda>a b. h_timestamp b \<le> h_timestamp a) s"
  shows "sorted (map h_timestamp (rev (take n s)))"
    and "\<forall>x \<in> set (drop n s). \<forall>y \<in> set (rev (take n s)). h_timestamp x \<le> h_timestamp y"
proof -
  from assms have split: "sorted_wrt (\<lambda>a b. h_timestamp b \<le> h_timestamp a) (take n s @ drop n s)"
    by simp
  then have "sorted_wrt (\<lambda>a b. h_timestamp b \<le> h_timestamp a) (take n s)"
    unfolding sorted_wrt_append by blast
  then have "sorted_wrt (\<lambda>a b. h_timestamp a \<le> h_timestamp b) (rev (take n s))"
    by (simp add: sorted_wrt_rev)
  then show "sorted (map h_timestamp (rev (take n s)))"
    by (simp add: sorted_wrt_map)
  from split show "\<forall>x \<in> set (drop n s). \<forall>y \<in> set (rev (take n s)). h_timestamp x \<le> h_timestamp y"
    unfolding sorted_wrt_append by auto
qed

text \<open>
  C9. For every user and limit \<open>N\<close>, \<^verbatim>\<open>get_chat_history\<close> returns the tuples of messages
  \<open>hs\<close> stored for that user, in non-decreasing timestamp order (oldest first), such that
  every stored message of the user that is left out (\<open>rest\<close>) is at most as recent as
  every returned one; for \<open>N \<ge> 0\<close> there are \<open>min N k\<close> of them, \<open>k\<close> the number of the
  user's messages, hence at most \<open>N\<close>. (A negative \<open>N\<close> is no bound for SQLite's
  \<^verbatim>\<open>LIMIT\<close>: then nothing is left out.)
\<close>

theorem chat_history_is_recent_and_chronological:
  "\<exists>hs rest.
      fst (get_chat_history sqlite user_id limit m) = map chat_tuple hs
    \<and> sorted (map h_timestamp hs)
    \<and> mset (hs @ rest) = mset (filter (\<lambda>h. h_user h = user_id) (ai_chat_history (dbfile m)))
    \<and> (\<forall>x \<in> set rest. \<forall>y \<in> set hs. h_timestamp x \<le> h_timestamp y)
    \<and> (0 \<le> limit \<longrightarrow>
          int (length hs) \<le> limit
          \<and> length hs = min (nat limit)
                            (length (filter (\<lambda>h. h_user h = user_id) (ai_chat_history (dbfile m)))))
    \<and> (limit < 0 \<longrightarrow> rest = [])"
proof -
  let ?all = "filter (\<lambda>h. h_user h = user_id) (ai_chat_history (dbfile m))"
  let ?s = "order_by (\<lambda>a b. h_timestamp b \<le> h_timestamp a) ?all"
  let ?n = "if limit < 0 then length ?s else nat limit"
  have sel: "select_chat (dbfile m) user_id limit = take ?n ?s"
    by (simp add: select_chat_def sql_limit_def)
  have sorted: "sorted_wrt (\<lambda>a b. h_timestamp b \<le> h_timestamp a) ?s"
    by (rule newest_first_sorted)
  have 1: "fst (get_chat_history sqlite user_id limit m) = map chat_tuple (rev (take ?n ?s))"
    by (simp only: get_chat_history_sqlite sel)
  have 2: "sorted (map h_timestamp (rev (take ?n ?s)))"
    using sorted by (rule newest_rows)
  have "mset (rev (take ?n ?s) @ drop ?n ?s) = mset (take ?n ?s @ drop ?n ?s)"
    by (simp only: mset_append mset_rev)
  then have 3: "mset (rev (take ?n ?s) @ drop ?n ?s) = mset ?all"
    by (simp only: append_take_drop_id mset_order_by)
  have 4: "\<forall>x \<in> set (drop ?n ?s). \<forall>y \<in> set (rev (take ?n ?s)). h_timestamp x \<le> h_timestamp y"
    using sorted by (rule newest_rows)
  have 5: "0 \<le> limit \<longrightarrow> int (length (rev (take ?n ?s))) \<le> limit
             \<and> length (rev (take ?n ?s)) = min (nat limit) (length ?all)"
    by (auto simp: length_order_by)
  have 6: "limit < 0 \<longrightarrow> drop ?n ?s = []"
    by simp
  from 1 2 3 4 5 6 show ?thesis
    by (intro exI [of _ "rev (take ?n ?s)"] exI [of _ "drop ?n ?s"] conjI)
qed

lemma alice_chat:
  "filter (\<lambda>h. h_user h = 1) (ai_chat_history (dbfile chat_manager))
     = [\<lparr>h_id = 1, h_user = 1, h_role = ''user'', h_content = ''What is a limit?'',
          h_timestamp = ''2024-01-12 09:00:00''\<rparr>,
        \<lparr>h_id = 2, h_user = 1, h_role = ''model'', h_content = ''A value a sequence approaches.'',
          h_timestamp = ''2024-01-12 09:00:02''\<rparr>,
        \<lparr>h_id = 3, h_user = 1, h_role = ''user'', h_content = ''Thanks'',
          h_timestamp = ''2024-01-12 09:00:02''\<rparr>]"
  by (simp add: chat_manager_def init_manager_def chat_db_def)

lemma last_two_messages:
  "fst (get_chat_history sqlite 1 2 chat_manager)
     = [[SText ''user'', SText ''Thanks'', SText ''2024-01-12 09:00:02''],
        [SText ''model'', SText ''A value a sequence approaches.'', SText ''2024-01-12 09:00:02'']]"
  by (simp add: get_chat_history_sqlite select_chat_def alice_chat sql_limit_def order_by_def
        chat_tuple_def)

theorem chat_history_is_recent_and_chronological_witness:
  "fst (get_chat_history sqlite 1 2 chat_manager)
     = [[SText ''user'', SText ''Thanks'', SText ''2024-01-12 09:00:02''],
        [SText ''model'', SText ''A value a sequence approaches.'', SText ''2024-01-12 09:00:02'']]
   \<and> (0::int) \<le> 2
   \<and> int (length (fst (get_chat_history sqlite 1 2 chat_manager))) \<le> 2
   \<and> (- 1 :: int) < 0
   \<and> length (fst (get_chat_history sqlite 1 (- 1) chat_manager)) = 3"
proof -
  from chat_history_is_recent_and_chronological [of 1 2 chat_manager]
  obtain hs :: "chat_row list" where "fst (get_chat_history sqlite 1 2 chat_manager) = map chat_tuple hs"
    and "int (length hs) \<le> 2"
    by auto
  then have bounded: "int (length (fst (get_chat_history sqlite 1 2 chat_manager))) \<le> 2"
    by simp
  from chat_history_is_recent_and_chronological [of 1 "- 1" chat_manager]
  obtain hs' :: "chat_row list" where "fst (get_chat_history sqlite 1 (- 1) chat_manager) = map chat_tuple hs'"
    and "mset (hs' @ []) = mset (filter (\<lambda>h. h_user h = 1) (ai_chat_history (dbfile chat_manager)))"
    by auto
  then have "length (fst (get_chat_history sqlite 1 (- 1) chat_manager))
               = length (filter (\<lambda>h. h_user h = 1) (ai_chat_history (dbfile chat_manager)))"
    by (metis append_Nil2 length_map size_mset)
  then have everything: "length (fst (get_chat_history sqlite 1 (- 1) chat_manager)) = 3"
    by (simp only: alice_chat) simp
  from last_two_messages bounded everything show ?thesis
    by simp
qed

subsection \<open>Schema migration\<close>

lemma starts_with_append: "starts_with n (n @ x)"
  by (induction n) auto

lemma str_contains_prefix: "str_contains n (n @ x)"
proof (cases "n @ x")
  case Nil
  then show ?thesis by simp
next
  case (Cons h hs)
  with starts_with_append [of n x] have "starts_with n (h # hs)" by simp
  with Cons show ?thesis by simp
qed

lemma lower_append: "lower (a @ b) = lower a @ lower b"
  by (simp add: lower_def)

lemma lower_duplicate: "lower ''duplicate column name: '' = ''duplicate column name'' @ '': ''"
  by (simp add: lower_def lower_char_def)

lemma duplicate_message_recognised:
  "str_contains ''duplicate column name'' (lower (''duplicate column name: '' @ c))"
proof -
  have "lower (''duplicate column name: '' @ c) = ''duplicate column name'' @ ('': '' @ lower c)"
    by (simp only: lower_append lower_duplicate append_assoc)
  then show ?thesis
    by (simp only: str_contains_prefix)
qed

lemma table_exists_sqlite: "table_exists sqlite_schema s t = Inr (t \<in> set (map fst s))"
  by (simp add: table_exists_def sqlite_schema_def)

lemma column_exists_sqlite:
  "column_exists sqlite_schema s t c = Inr (t \<in> set (map fst s) \<and> c \<in> set (table_info s t))"
  by (simp add: column_exists_def table_exists_sqlite) (simp add: sqlite_schema_def)

lemma map_of_known: "t \<in> set (map fst s) \<Longrightarrow> \<exists>cs. map_of s t = Some cs"
  by (induction s) auto

lemma alter_add_sqlite:
  assumes "t \<in> set (map fst s)"
  shows "alter_add s t d =
     (if lower (column_name_of d) \<in> set (map lower (table_info s t))
      then Inl (OperationalError (''duplicate column name: '' @ column_name_of d))
      else Inr (map (\<lambda>(n, cs). if n = t then (n, cs @ [column_name_of d]) else (n, cs)) s))"
proof -
  from map_of_known [OF assms] obtain cs where known: "map_of s t = Some cs" ..
  show ?thesis
    unfolding alter_add_def table_info_def by (simp only: known option.case)
qed

text \<open>One call of \<^verbatim>\<open>_try_add_column\<close> on SQLite's schema.\<close>

lemma try_add_column_sqlite:
  assumes name: "column_name_of d = c"
  shows "try_add_column sqlite_schema t d c ms =
     (if t \<in> set (map fst (schema ms)) \<and> c \<notin> set (table_info (schema ms) t)
      then (if lower c \<in> set (map lower (table_info (schema ms) t))
            then (Inr False, ms\<lparr>alters := alters ms @ [(t, d)]\<rparr>)
            else (Inr True, ms\<lparr>alters := alters ms @ [(t, d)],
                                schema := map (\<lambda>(n, cs). if n = t then (n, cs @ [c]) else (n, cs))
                                            (schema ms)\<rparr>))
      else (Inr False, ms))"
proof (cases "t \<in> set (map fst (schema ms)) \<and> c \<notin> set (table_info (schema ms) t)")
  case False
  then show ?thesis
    by (auto simp: try_add_column_def table_exists_sqlite column_exists_sqlite)
next
  case True
  then have known: "t \<in> set (map fst (schema ms))" and missing: "c \<notin> set (table_info (schema ms) t)"
    by simp_all
  define msg where "msg = ''duplicate column name: '' @ c"
  have recognised: "str_contains ''duplicate column name'' (lower msg)"
    unfolding msg_def by (rule duplicate_message_recognised)
  have "alter_add (schema ms) t d =
     (if lower c \<in> set (map lower (table_info (schema ms) t))
      then Inl (OperationalError msg)
      else Inr (map (\<lambda>(n, cs). if n = t then (n, cs @ [c]) else (n, cs)) (schema ms)))"
    using alter_add_sqlite [OF known, of d] unfolding name msg_def .
  then have alter: "ss_alter_add sqlite_schema (schema ms) t d =
     (if lower c \<in> set (map lower (table_info (schema ms) t))
      then Inl (OperationalError msg)
      else Inr (map (\<lambda>(n, cs). if n = t then (n, cs @ [c]) else (n, cs)) (schema ms)))"
    by (simp add: sqlite_schema_def)
  show ?thesis
  proof (cases "lower c \<in> set (map lower (table_info (schema ms) t))")
    case True
    with known missing show ?thesis
      by (simp add: try_add_column_def table_exists_sqlite column_exists_sqlite alter
            recognised Let_def)
  next
    case False
    with known missing show ?thesis
      by (simp add: try_add_column_def table_exists_sqlite column_exists_sqlite alter Let_def)
  qed
qed

lemma try_add_column_sqlite_effect:
  assumes name: "column_name_of d = c"
  shows "\<exists>b. fst (try_add_column sqlite_schema t d c ms) = Inr b"
    and "schema (snd (try_add_column sqlite_schema t d c ms)) = with_column (schema ms) t c"
proof -
  note step = try_add_column_sqlite [OF name, of t ms]
  show "\<exists>b. fst (try_add_column sqlite_schema t d c ms) = Inr b"
    unfolding step by auto
  have "c \<in> set (table_info (schema ms) t) \<Longrightarrow> lower c \<in> set (map lower (table_info (schema ms) t))"
    by simp
  then show "schema (snd (try_add_column sqlite_schema t d c ms)) = with_column (schema ms) t c"
    unfolding step with_column_def by auto
qed

lemma add_columns_sqlite:
  assumes "\<forall>tr \<in> set trs. column_name_of (fst (snd tr)) = snd (snd tr)"
  shows "(\<exists>b. fst (add_columns sqlite_schema trs b0 ms) = Inr b)
       \<and> schema (snd (add_columns sqlite_schema trs b0 ms))
           = fold (\<lambda>tr s. with_column s (fst tr) (snd (snd tr))) trs (schema ms)"
  using assms
proof (induction trs arbitrary: b0 ms)
  case Nil
  then show ?case by simp
next
  case (Cons tr trs)
  obtain t d c where tr: "tr = (t, d, c)"
    by (cases tr) auto
  have name: "column_name_of d = c"
    using Cons.prems by (simp add: tr)
  from try_add_column_sqlite_effect(1) [OF name, of t ms]
  obtain b where b: "fst (try_add_column sqlite_schema t d c ms) = Inr b" ..
  let ?ms1 = "snd (try_add_column sqlite_schema t d c ms)"
  have unfold: "add_columns sqlite_schema (tr # trs) b0 ms
                  = add_columns sqlite_schema trs (if b then True else b0) ?ms1"
    using b by (simp add: tr split_def)
  have rest: "\<forall>tr \<in> set trs. column_name_of (fst (snd tr)) = snd (snd tr)"
    using Cons.prems by simp
  have step: "schema ?ms1 = with_column (schema ms) t c"
    by (rule try_add_column_sqlite_effect(2) [OF name])
  from Cons.IH [OF rest, of "if b then True else b0" ?ms1]
  show ?case
    unfolding unfold by (simp add: tr step)
qed

lemma column_migrations_named:
  "\<forall>tr \<in> set column_migrations. column_name_of (fst (snd tr)) = snd (snd tr)"
  by (simp add: column_migrations_def column_name_of_def category_column_sql_def)

lemma migrate_columns_sqlite:
  "fst (migrate_columns sqlite_schema ms) = None"
  "schema (snd (migrate_columns sqlite_schema ms))
     = with_column (with_column (with_column (schema ms) ''tasks'' ''category'')
                                ''tasks'' ''created_at'')
                   ''quiz_attempts'' ''questions_data''"
proof -
  note run = add_columns_sqlite [OF column_migrations_named, of False ms]
  from run obtain b where b: "fst (add_columns sqlite_schema column_migrations False ms) = Inr b"
    by (elim conjE exE)
  have commit: "ss_commit sqlite_schema s = None" for s
    by (simp add: sqlite_schema_def)
  from b show "fst (migrate_columns sqlite_schema ms) = None"
    by (simp add: migrate_columns_def split_def commit)
  from b have "snd (migrate_columns sqlite_schema ms) = snd (add_columns sqlite_schema column_migrations False ms)"
    by (simp add: migrate_columns_def split_def)
  with run have "schema (snd (migrate_columns sqlite_schema ms))
      = fold (\<lambda>tr s. with_column s (fst tr) (snd (snd tr))) column_migrations (schema ms)"
    by (simp only:)
  then show "schema (snd (migrate_columns sqlite_schema ms))
     = with_column (with_column (with_column (schema ms) ''tasks'' ''category'')
                                ''tasks'' ''created_at'')
                   ''quiz_attempts'' ''questions_data''"
    by (simp add: column_migrations_def)
qed

lemma names_add_column:
  "map fst (map (\<lambda>(n, cs). if n = t then (n, cs @ [c]) else (n, cs)) s) = map fst s"
  by (induction s) (auto split: prod.splits)

lemma map_of_add_column:
  "map_of (map (\<lambda>(n, cs). if n = t then (n, cs @ [c]) else (n, cs)) s) t'
     = (if t' = t then map_option (\<lambda>cs. cs @ [c]) (map_of s t) else map_of s t')"
  by (induction s) (auto split: prod.splits)

lemma table_info_add_column:
  "table_info (map (\<lambda>(n, cs). if n = t then (n, cs @ [c]) else (n, cs)) s) t'
     = (if t' = t \<and> t \<in> set (map fst s) then table_info s t @ [c] else table_info s t')"
proof (cases "t' = t \<and> t \<in> set (map fst s)")
  case True
  then have "t \<in> set (map fst s)" by simp
  from map_of_known [OF this] obtain cs where "map_of s t = Some cs" ..
  with True show ?thesis
    by (simp add: table_info_def map_of_add_column)
next
  case False
  show ?thesis
  proof (cases "t' = t")
    case True
    with False have "t \<notin> set (map fst s)" by simp
    then have "map_of s t = None"
      by (simp add: map_of_eq_None_iff)
    with True False show ?thesis
      by (simp add: table_info_def map_of_add_column)
  next
    case False
    then show ?thesis
      by (simp add: table_info_def map_of_add_column)
  qed
qed

lemma with_column_adds:
  "t \<in> set (map fst s) \<and> lower c \<notin> set (map lower (table_info s t))
     \<Longrightarrow> with_column s t c = map (\<lambda>(n, cs). if n = t then (n, cs @ [c]) else (n, cs)) s"
  unfolding with_column_def by (rule if_P)

lemma with_column_same:
  "\<not> (t \<in> set (map fst s) \<and> lower c \<notin> set (map lower (table_info s t)))
     \<Longrightarrow> with_column s t c = s"
  unfolding with_column_def by (rule if_not_P)

lemma names_with_column: "map fst (with_column s t c) = map fst s"
proof (cases "t \<in> set (map fst s) \<and> lower c \<notin> set (map lower (table_info s t))")
  case True
  show ?thesis
    unfolding with_column_adds [OF True] by (rule names_add_column)
next
  case False
  show ?thesis
    unfolding with_column_same [OF False] by (rule refl)
qed

lemma table_info_with_column:
  "set (table_info s t') \<subseteq> set (table_info (with_column s t c) t')"
proof (cases "t \<in> set (map fst s) \<and> lower c \<notin> set (map lower (table_info s t))")
  case True
  show ?thesis
    unfolding with_column_adds [OF True] by (auto simp: table_info_add_column)
next
  case False
  show ?thesis
    unfolding with_column_same [OF False] by (rule subset_refl)
qed

lemma settled_after: "settled (with_column s t c) t c"
proof (cases "t \<in> set (map fst s) \<and> lower c \<notin> set (map lower (table_info s t))")
  case True
  then show ?thesis
    unfolding with_column_adds [OF True] by (simp add: settled_def table_info_add_column)
next
  case False
  then show ?thesis
    unfolding with_column_same [OF False] settled_def by blast
qed

lemma settled_kept:
  assumes "settled s t' c'"
  shows "settled (with_column s t c) t' c'"
proof -
  have "lower c' \<in> set (map lower (table_info (with_column s t c) t'))"
    if "lower c' \<in> set (map lower (table_info s t'))"
    using that table_info_with_column [of s t' t c] by auto
  with assms show ?thesis
    unfolding settled_def names_with_column by blast
qed

lemma settled_fixed:
  assumes "settled s t c"
  shows "with_column s t c = s"
proof -
  from assms have "\<not> (t \<in> set (map fst s) \<and> lower c \<notin> set (map lower (table_info s t)))"
    unfolding settled_def by blast
  then show ?thesis
    by (rule with_column_same)
qed

text \<open>
  C2. On SQLite's schema, whatever it is, phase 1 of \<^verbatim>\<open>init_db\<close> ends without an error,
  and so does a second run right after it, which leaves the schema as the first run made
  it. For every store: when \<^verbatim>\<open>_column_exists\<close> finds the column, \<^verbatim>\<open>_try_add_column\<close>
  executes no \<^verbatim>\<open>ALTER TABLE\<close> and changes nothing; and when the table exists, the column is
  not found, and \<^verbatim>\<open>ALTER TABLE\<close> raises an \<^verbatim>\<open>OperationalError\<close> whose text contains
  \<^verbatim>\<open>duplicate column name\<close> (in any case), \<^verbatim>\<open>_try_add_column\<close> returns \<^verbatim>\<open>False\<close> as for a
  column that is present, and raises nothing.
\<close>

theorem additive_migration_is_idempotent:
  "fst (migrate_columns sqlite_schema ms) = None
   \<and> fst (migrate_columns sqlite_schema (snd (migrate_columns sqlite_schema ms))) = None
   \<and> schema (snd (migrate_columns sqlite_schema (snd (migrate_columns sqlite_schema ms))))
       = schema (snd (migrate_columns sqlite_schema ms))
   \<and> (column_exists st (schema ms') t c = Inr True \<longrightarrow>
        try_add_column st t d c ms' = (Inr False, ms'))
   \<and> (table_exists st (schema ms') t = Inr True
        \<and> column_exists st (schema ms') t c = Inr False
        \<and> ss_alter_add st (schema ms') t d = Inl (OperationalError msg)
        \<and> str_contains ''duplicate column name'' (lower msg) \<longrightarrow>
        try_add_column st t d c ms' = (Inr False, ms'\<lparr>alters := alters ms' @ [(t, d)]\<rparr>))"
proof (intro conjI impI)
  show "fst (migrate_columns sqlite_schema ms) = None"
    by (rule migrate_columns_sqlite)
  show "fst (migrate_columns sqlite_schema (snd (migrate_columns sqlite_schema ms))) = None"
    by (rule migrate_columns_sqlite)
  let ?s1 = "schema (snd (migrate_columns sqlite_schema ms))"
  have s1: "?s1 = with_column (with_column (with_column (schema ms) ''tasks'' ''category'')
                                           ''tasks'' ''created_at'')
                              ''quiz_attempts'' ''questions_data''"
    by (rule migrate_columns_sqlite)
  have a: "settled ?s1 ''tasks'' ''category''"
    unfolding s1 by (intro settled_kept settled_after)
  have b: "settled ?s1 ''tasks'' ''created_at''"
    unfolding s1 by (intro settled_kept settled_after)
  have c: "settled ?s1 ''quiz_attempts'' ''questions_data''"
    unfolding s1 by (rule settled_after)
  have "schema (snd (migrate_columns sqlite_schema (snd (migrate_columns sqlite_schema ms))))
          = with_column (with_column (with_column ?s1 ''tasks'' ''category'')
                                     ''tasks'' ''created_at'')
                        ''quiz_attempts'' ''questions_data''"
    by (rule migrate_columns_sqlite)
  also have "\<dots> = ?s1"
    by (simp only: settled_fixed [OF a] settled_fixed [OF b] settled_fixed [OF c])
  finally show "schema (snd (migrate_columns sqlite_schema (snd (migrate_columns sqlite_schema ms)))) = ?s1" .
next
  assume "column_exists st (schema ms') t c = Inr True"
  moreover from this have "table_exists st (schema ms') t = Inr True"
    by (auto simp: column_exists_def split: sum.splits if_splits)
  ultimately show "try_add_column st t d c ms' = (Inr False, ms')"
    by (simp add: try_add_column_def)
next
  assume "table_exists st (schema ms') t = Inr True
        \<and> column_exists st (schema ms') t c = Inr False
        \<and> ss_alter_add st (schema ms') t d = Inl (OperationalError msg)
        \<and> str_contains ''duplicate column name'' (lower msg)"
  then show "try_add_column st t d c ms' = (Inr False, ms'\<lparr>alters := alters ms' @ [(t, d)]\<rparr>)"
    by (simp add: try_add_column_def Let_def)
qed

lemma legacy_migrated:
  "with_column (with_column (with_column legacy_schema ''tasks'' ''category'')
                            ''tasks'' ''created_at'')
               ''quiz_attempts'' ''questions_data'' = migrated_schema"
  by (simp add: with_column_def table_info_def legacy_schema_def migrated_schema_def lower_def
        lower_char_def)

lemma legacy_duplicate:
  "table_exists sqlite_schema legacy_schema ''tasks'' = Inr True"
  "column_exists sqlite_schema legacy_schema ''tasks'' ''category'' = Inr False"
  "ss_alter_add sqlite_schema legacy_schema ''tasks'' category_column_sql
     = Inl (OperationalError ''duplicate column name: category'')"
  "str_contains ''duplicate column name'' (lower ''duplicate column name: category'')"
proof -
  show "table_exists sqlite_schema legacy_schema ''tasks'' = Inr True"
    by (simp add: table_exists_sqlite legacy_schema_def)
  show "column_exists sqlite_schema legacy_schema ''tasks'' ''category'' = Inr False"
    by (simp add: column_exists_sqlite table_info_def legacy_schema_def)
  show "ss_alter_add sqlite_schema legacy_schema ''tasks'' category_column_sql
     = Inl (OperationalError ''duplicate column name: category'')"
    by (simp add: sqlite_schema_def alter_add_def table_info_def legacy_schema_def
          category_column_sql_def column_name_of_def lower_def lower_char_def)
  show "str_contains ''duplicate column name'' (lower ''duplicate column name: category'')"
    using duplicate_message_recognised [of "''category''"] by simp
qed

lemma migrated_has_created_at:
  "column_exists sqlite_schema migrated_schema ''tasks'' ''created_at'' = Inr True"
  by (simp add: column_exists_sqlite table_info_def migrated_schema_def)

theorem additive_migration_is_idempotent_witness:
  "fst (migrate_columns sqlite_schema \<lparr>schema = legacy_schema, alters = []\<rparr>) = None
   \<and> schema (snd (migrate_columns sqlite_schema \<lparr>schema = legacy_schema, alters = []\<rparr>))
       = migrated_schema
   \<and> schema (snd (migrate_columns sqlite_schema
                     (snd (migrate_columns sqlite_schema \<lparr>schema = legacy_schema, alters = []\<rparr>))))
       = migrated_schema
   \<and> column_exists sqlite_schema migrated_schema ''tasks'' ''created_at'' = Inr True
   \<and> try_add_column sqlite_schema ''tasks'' ''created_at TEXT'' ''created_at''
         \<lparr>schema = migrated_schema, alters = []\<rparr>
       = (Inr False, \<lparr>schema = migrated_schema, alters = []\<rparr>)
   \<and> ss_alter_add sqlite_schema legacy_schema ''tasks'' category_column_sql
       = Inl (OperationalError ''duplicate column name: category'')
   \<and> try_add_column sqlite_schema ''tasks'' category_column_sql ''category''
         \<lparr>schema = legacy_schema, alters = []\<rparr>
       = (Inr False, \<lparr>schema = legacy_schema, alters = [(''tasks'', category_column_sql)]\<rparr>)"
proof -
  note run = additive_migration_is_idempotent
               [of "\<lparr>schema = legacy_schema, alters = []\<rparr>" sqlite_schema
                   "\<lparr>schema = migrated_schema, alters = []\<rparr>" "''tasks''" "''created_at''"
                   "''created_at TEXT''"]
  note dup = additive_migration_is_idempotent
               [of "\<lparr>schema = legacy_schema, alters = []\<rparr>" sqlite_schema
                   "\<lparr>schema = legacy_schema, alters = []\<rparr>" "''tasks''" "''category''"
                   category_column_sql "''duplicate column name: category''"]
  have first: "schema (snd (migrate_columns sqlite_schema \<lparr>schema = legacy_schema, alters = []\<rparr>))
                 = migrated_schema"
    by (simp only: migrate_columns_sqlite(2) migration.simps legacy_migrated)
  from run have 1: "fst (migrate_columns sqlite_schema \<lparr>schema = legacy_schema, alters = []\<rparr>) = None"
    by (rule conjunct1)
  from run [THEN conjunct2, THEN conjunct2, THEN conjunct1]
  have 2: "schema (snd (migrate_columns sqlite_schema
                     (snd (migrate_columns sqlite_schema \<lparr>schema = legacy_schema, alters = []\<rparr>))))
       = migrated_schema"
    by (simp only: first)
  from run [THEN conjunct2, THEN conjunct2, THEN conjunct2, THEN conjunct1, THEN mp]
       migrated_has_created_at
  have 3: "try_add_column sqlite_schema ''tasks'' ''created_at TEXT'' ''created_at''
         \<lparr>schema = migrated_schema, alters = []\<rparr>
       = (Inr False, \<lparr>schema = migrated_schema, alters = []\<rparr>)"
    by (simp only: migration.simps)
  from dup [THEN conjunct2, THEN conjunct2, THEN conjunct2, THEN conjunct2, THEN mp] legacy_duplicate
  have 4: "try_add_column sqlite_schema ''tasks'' category_column_sql ''category''
         \<lparr>schema = legacy_schema, alters = []\<rparr>
       = (Inr False, \<lparr>schema = legacy_schema, alters = [(''tasks'', category_column_sql)]\<rparr>)"
    by (simp only: migration.simps append_Nil simp_thms)
  from 1 first 2 migrated_has_created_at 3 legacy_duplicate(3) 4 show ?thesis
    by (intro conjI)
qed

end
